theory Spec2Isabelle
  imports Main "HOL-Library.AList"
begin

section \<open>JavaScript values\<close>

text \<open>
  The option-merging utilities of \<^verbatim>\<open>src/core/util/options.js\<close> work on untyped JavaScript
  values. A value is a primitive, an array, an object or a function.

  \<^item> An object \<open>Obj ps pr\<close> has its own enumerable properties \<open>ps\<close> (in insertion order;
    a key is read through \<open>map_of\<close>, so only the first entry of a key is ever seen) and
    its prototype \<open>pr\<close> (\<open>Null\<close> for none). Object literals and \<^verbatim>\<open>Object.create(null)\<close>
    are both \<open>Obj ps Null\<close>: the members of the built-in prototypes are not modelled,
    except \<^verbatim>\<open>length\<close> and \<^verbatim>\<open>concat\<close> of arrays and strings, nor are getters, setters and
    properties that are not enumerable. Names that are array indices are enumerated in
    the order of insertion like the others.
  \<^item> A caller-supplied function \<open>Fn n ps\<close> is identified by its number \<open>n\<close> and carries
    its own enumerable properties \<open>ps\<close> (a component constructor carries \<^verbatim>\<open>options\<close>);
    its built-in properties \<^verbatim>\<open>name\<close>, \<^verbatim>\<open>length\<close> and \<^verbatim>\<open>prototype\<close> are not modelled. A call
    returns or throws a value and changes no object.
  \<^item> \<open>MergedDataFn childVal parentVal\<close> and \<open>MergedInstanceDataFn childVal parentVal vm\<close>
    are the two closures that \<^verbatim>\<open>mergeDataOrFn\<close> returns, with the variables they capture.
  \<^item> Numbers are integers. Objects are compared by structure; two references to one
    object are two equal values, so sharing between objects is not modelled.
\<close>

datatype val =
    Undefined
  | Null
  | Bool bool
  | Num int
  | Str string
  | Arr "val list"
  | Obj "(string \<times> val) list" val
  | Fn nat "(string \<times> val) list"
  | MergedDataFn val val
  | MergedInstanceDataFn val val val

text \<open>
  A failure is either a \<^verbatim>\<open>TypeError\<close> raised by the language while the utilities run
  (a property read on \<^verbatim>\<open>undefined\<close> or \<^verbatim>\<open>null\<close>, a call of something that is not a
  function, \<^verbatim>\<open>Object.create\<close> of a primitive), or the value thrown by a caller-supplied
  function.
\<close>

datatype error = TypeError | Thrown val

text \<open>The messages sent to the warning sink \<^verbatim>\<open>warn\<close>, one constructor per call site.\<close>

datatype warning =
    WarnRestricted string
  | WarnDataFunction
  | WarnObjectType string val
  | WarnComponentName string
  | WarnReservedName string
  | WarnPropsStrings
  | WarnInvalidProps val
  | WarnInvalidInject val
  | WarnResolve string string

text \<open>
  What the module imports and what the runtime provides: the build mode
  (\<open>dev\<close> is \<^verbatim>\<open>process.env.NODE_ENV !== 'production'\<close>), the two name lists of
  \<^verbatim>\<open>shared/constants\<close>, \<^verbatim>\<open>nativeWatch\<close> of \<^verbatim>\<open>./env\<close> (\<^verbatim>\<open>undefined\<close>, or the native function
  \<^verbatim>\<open>Object.prototype.watch\<close>), the two tag predicates, the reactive setter \<^verbatim>\<open>set\<close> of
  \<^verbatim>\<open>../observer/index\<close> (it takes the target and returns the target after the call), the
  behaviour of the caller-supplied functions (function number, \<^verbatim>\<open>this\<close>, arguments; \<open>Inl\<close>
  is a thrown value), and the language's conversions to string and to number
  (\<open>None\<close> is \<^verbatim>\<open>NaN\<close>).
\<close>

record env =
  dev :: bool
  LIFECYCLE_HOOKS :: "string list"
  ASSET_TYPES :: "string list"
  nativeWatch :: val
  isBuiltInTag :: "string \<Rightarrow> bool"
  isReservedTag :: "string \<Rightarrow> bool"
  reactive_set :: "val \<Rightarrow> string \<Rightarrow> val \<Rightarrow> val"
  fenv :: "nat \<Rightarrow> val \<Rightarrow> val list \<Rightarrow> val + val"
  toStr :: "val \<Rightarrow> string"
  toNumber :: "val \<Rightarrow> int option"

subsection \<open>Tests on values\<close>

fun truthy :: "val \<Rightarrow> bool" where
  "truthy Undefined = False"
| "truthy Null = False"
| "truthy (Bool b) = b"
| "truthy (Num n) = (n \<noteq> 0)"
| "truthy (Str s) = (s \<noteq> [])"
| "truthy _ = True"

fun nullish :: "val \<Rightarrow> bool" where
  "nullish Undefined = True"
| "nullish Null = True"
| "nullish _ = False"

text \<open>\<^verbatim>\<open>typeof v === 'function'\<close>, \<^verbatim>\<open>typeof v === 'string'\<close> and \<^verbatim>\<open>Array.isArray(v)\<close>.\<close>

fun isFunction :: "val \<Rightarrow> bool" where
  "isFunction (Fn n ps) = True"
| "isFunction (MergedDataFn c p) = True"
| "isFunction (MergedInstanceDataFn c p vm) = True"
| "isFunction _ = False"

fun isString :: "val \<Rightarrow> bool" where
  "isString (Str s) = True"
| "isString _ = False"

fun isArray :: "val \<Rightarrow> bool" where
  "isArray (Arr xs) = True"
| "isArray _ = False"

text \<open>
  Modelled from the spec: \<^verbatim>\<open>isPlainObject\<close> of \<^verbatim>\<open>shared/util\<close> is not in the source; the
  spec names it the generic is-plain-object predicate. It holds of objects, and not of
  arrays, functions or primitives.
\<close>

fun isPlainObject :: "val \<Rightarrow> bool" where
  "isPlainObject (Obj ps pr) = True"
| "isPlainObject _ = False"

text \<open>What \<^verbatim>\<open>Object.create\<close> accepts as a prototype besides \<^verbatim>\<open>null\<close>.\<close>

fun isObjectLike :: "val \<Rightarrow> bool" where
  "isObjectLike (Arr xs) = True"
| "isObjectLike (Obj ps pr) = True"
| "isObjectLike (Fn n ps) = True"
| "isObjectLike (MergedDataFn c p) = True"
| "isObjectLike (MergedInstanceDataFn c p vm) = True"
| "isObjectLike _ = False"

subsection \<open>Array indices as property names\<close>

definition digit_char :: "nat \<Rightarrow> char" where
  "digit_char d = ''0123456789'' ! d"

fun string_of_nat :: "nat \<Rightarrow> string" where
  "string_of_nat n =
     (if n < 10 then [digit_char n] else string_of_nat (n div 10) @ [digit_char (n mod 10)])"

declare string_of_nat.simps [simp del]

definition is_digit :: "char \<Rightarrow> bool" where
  "is_digit c = (c \<in> set ''0123456789'')"

definition digit_val :: "char \<Rightarrow> nat" where
  "digit_val c = (case map_of (zip ''0123456789'' [0..<10]) c of Some d \<Rightarrow> d | None \<Rightarrow> 0)"

text \<open>
  A property name is an array index when it is the decimal numeral of a number, without
  a leading zero.
\<close>

definition parse_index :: "string \<Rightarrow> nat option" where
  "parse_index k =
     (if k = [] \<or> \<not> list_all is_digit k \<or> (hd k = CHR ''0'' \<and> tl k \<noteq> []) then None
      else Some (foldl (\<lambda>a c. 10 * a + digit_val c) 0 k))"

subsection \<open>Properties\<close>

text \<open>
  The own enumerable properties of a value, in the order of enumeration: the entries of
  an object or function, the elements of an array, the characters of a string.
\<close>

fun own_props :: "val \<Rightarrow> (string \<times> val) list" where
  "own_props (Obj ps pr) = ps"
| "own_props (Fn n ps) = ps"
| "own_props (Arr xs) = zip (map string_of_nat [0..<length xs]) xs"
| "own_props (Str s) = zip (map string_of_nat [0..<length s]) (map (\<lambda>c. Str [c]) s)"
| "own_props _ = []"

text \<open>The first occurrences of a list, in order.\<close>

definition nub :: "'a list \<Rightarrow> 'a list" where
  "nub xs = rev (remdups (rev xs))"

text \<open>\<^verbatim>\<open>Object.keys(v)\<close>: the own enumerable property names.\<close>

definition Object_keys :: "val \<Rightarrow> string list" where
  "Object_keys v = nub (map fst (own_props v))"

text \<open>
  \<^verbatim>\<open>for (key in v)\<close>: the own enumerable names, then those inherited along the prototype
  chain that are not shadowed. Nothing is enumerated for \<^verbatim>\<open>undefined\<close> and \<^verbatim>\<open>null\<close>.
\<close>

fun forin_keys :: "val \<Rightarrow> string list" where
  "forin_keys (Obj ps pr) = nub (map fst ps @ forin_keys pr)"
| "forin_keys v = Object_keys v"

text \<open>
  The property read \<^verbatim>\<open>v[k]\<close> for a \<open>v\<close> that is not \<^verbatim>\<open>undefined\<close> or \<^verbatim>\<open>null\<close>: an own property,
  else the prototype's. Where the source may read a property of \<^verbatim>\<open>undefined\<close> or \<^verbatim>\<open>null\<close>,
  the model tests \<open>nullish\<close> before and raises \<open>TypeError\<close>.
\<close>

fun get :: "val \<Rightarrow> string \<Rightarrow> val" where
  "get (Obj ps pr) k = (case map_of ps k of Some v \<Rightarrow> v | None \<Rightarrow> get pr k)"
| "get (Fn n ps) k = (case map_of ps k of Some v \<Rightarrow> v | None \<Rightarrow> Undefined)"
| "get (Arr xs) k =
     (if k = ''length'' then Num (int (length xs))
      else case parse_index k of
             None \<Rightarrow> Undefined
           | Some i \<Rightarrow> if i < length xs then xs ! i else Undefined)"
| "get (Str s) k =
     (if k = ''length'' then Num (int (length s))
      else case parse_index k of
             None \<Rightarrow> Undefined
           | Some i \<Rightarrow> if i < length s then Str [s ! i] else Undefined)"
| "get v k = Undefined"

text \<open>
  Modelled from the spec: \<^verbatim>\<open>hasOwn\<close> of \<^verbatim>\<open>shared/util\<close> is not in the source; the spec names
  it the generic has-own-property predicate. It is used here on values that are not
  \<^verbatim>\<open>undefined\<close> or \<^verbatim>\<open>null\<close>.
\<close>

fun hasOwn :: "val \<Rightarrow> string \<Rightarrow> bool" where
  "hasOwn (Obj ps pr) k = (k \<in> set (map fst ps))"
| "hasOwn (Fn n ps) k = (k \<in> set (map fst ps))"
| "hasOwn (Arr xs) k =
     (k = ''length'' \<or> (case parse_index k of None \<Rightarrow> False | Some i \<Rightarrow> i < length xs))"
| "hasOwn (Str s) k =
     (k = ''length'' \<or> (case parse_index k of None \<Rightarrow> False | Some i \<Rightarrow> i < length s))"
| "hasOwn v k = False"

text \<open>
  The assignment \<^verbatim>\<open>v[k] = x\<close>, returning \<open>v\<close> after it: the own property is replaced in
  place or appended. The source assigns only to objects and functions, and to elements
  of an array that exist; nothing else is modelled.
\<close>

fun put :: "val \<Rightarrow> string \<Rightarrow> val \<Rightarrow> val" where
  "put (Obj ps pr) k x = Obj (AList.update k x ps) pr"
| "put (Fn n ps) k x = Fn n (AList.update k x ps)"
| "put (Arr xs) k x =
     (case parse_index k of
        None \<Rightarrow> Arr xs
      | Some i \<Rightarrow> if i < length xs then Arr (xs[i := x]) else Arr xs)"
| "put v k x = v"

text \<open>
  The object found at \<^verbatim>\<open>v[k]\<close> has been changed in place into \<open>x\<close>: \<open>v\<close> after the change.
  The property is replaced where it lives, in \<open>v\<close> itself or in the prototype that holds
  it.
\<close>

fun put_found :: "val \<Rightarrow> string \<Rightarrow> val \<Rightarrow> val" where
  "put_found (Obj ps pr) k x =
     (if k \<in> set (map fst ps) then Obj (AList.update k x ps) pr
      else Obj ps (put_found pr k x))"
| "put_found v k x = (if hasOwn v k then put v k x else v)"

subsection \<open>Results\<close>

text \<open>
  An operation that may warn and may fail returns its outcome (\<open>Inl\<close> the failure) and
  the warnings it sent to the sink, in order. A failure keeps the warnings sent before.
\<close>

type_synonym 'a res = "(error + 'a) \<times> warning list"

definition ok :: "'a \<Rightarrow> 'a res" where
  "ok x = (Inr x, [])"

definition throw :: "error \<Rightarrow> 'a res" where
  "throw e = (Inl e, [])"

definition warn :: "bool \<Rightarrow> warning \<Rightarrow> unit res" where
  "warn b w = (Inr (), if b then [w] else [])"

definition lift :: "error + 'a \<Rightarrow> 'a res" where
  "lift r = (r, [])"

definition bindR :: "'a res \<Rightarrow> ('a \<Rightarrow> 'b res) \<Rightarrow> 'b res" where
  "bindR m f =
     (case m of
        (Inl e, ws) \<Rightarrow> (Inl e, ws)
      | (Inr x, ws) \<Rightarrow> (case f x of (r, ws') \<Rightarrow> (r, ws @ ws')))"

text \<open>A loop over a list that stops at the first failure.\<close>

primrec foldR :: "('s \<Rightarrow> 'a \<Rightarrow> 's res) \<Rightarrow> 's \<Rightarrow> 'a list \<Rightarrow> 's res" where
  "foldR f s [] = ok s"
| "foldR f s (x # xs) = bindR (f s x) (\<lambda>s'. foldR f s' xs)"

section \<open>Imported utilities\<close>

definition is_alpha :: "char \<Rightarrow> bool" where
  "is_alpha c =
     (c \<in> set ''abcdefghijklmnopqrstuvwxyz'' \<or> c \<in> set ''ABCDEFGHIJKLMNOPQRSTUVWXYZ'')"

text \<open>The class \<^verbatim>\<open>\w\<close> of regular expressions: a letter, a digit or the underscore.\<close>

definition is_word_char :: "char \<Rightarrow> bool" where
  "is_word_char c = (is_alpha c \<or> is_digit c \<or> c = CHR ''_'')"

definition to_upper :: "char \<Rightarrow> char" where
  "to_upper c =
     (case map_of (zip ''abcdefghijklmnopqrstuvwxyz'' ''ABCDEFGHIJKLMNOPQRSTUVWXYZ'') c of
        Some u \<Rightarrow> u
      | None \<Rightarrow> c)"

text \<open>
  Modelled from the spec: \<^verbatim>\<open>camelize\<close> of \<^verbatim>\<open>shared/util\<close> is not in the source; the spec
  names it the dash-to-camel-case utility (\<^verbatim>\<open>a-b\<close> becomes \<^verbatim>\<open>aB\<close>). A dash followed by a
  word character is dropped and the character put in upper case; strings are ASCII.
\<close>

fun camelize :: "string \<Rightarrow> string" where
  "camelize (c # d # cs) =
     (if c = CHR ''-'' \<and> is_word_char d then to_upper d # camelize cs
      else c # camelize (d # cs))"
| "camelize cs = cs"

declare camelize.simps [simp del]

text \<open>
  Modelled from the spec: \<^verbatim>\<open>capitalize\<close> of \<^verbatim>\<open>shared/util\<close> is not in the source; the spec
  names it the capitalize utility. The first character is put in upper case.
\<close>

fun capitalize :: "string \<Rightarrow> string" where
  "capitalize [] = []"
| "capitalize (c # cs) = to_upper c # cs"

text \<open>
  Modelled from the spec: \<^verbatim>\<open>extend\<close> of \<^verbatim>\<open>shared/util\<close> is not in the source; the spec says
  that the entries of the second object are copied onto the first, which is returned
  (the child's own entries, overwriting on a name collision).
\<close>

definition extend :: "val \<Rightarrow> val \<Rightarrow> val" where
  "extend to from = foldl (\<lambda>t key. put t key (get from key)) to (Object_keys from)"

lemma isPlainObject_extend: "isPlainObject (extend to from) = isPlainObject to"
proof -
  have "isPlainObject (foldl (\<lambda>t key. put t key (get from key)) to ks) = isPlainObject to" for ks
  proof (induction ks arbitrary: to)
    case Nil
    then show ?case by simp
  next
    case (Cons k ks)
    have "isPlainObject (put to k (get from k)) = isPlainObject to"
      by (cases to) (auto split: option.splits)
    then show ?case using Cons.IH by simp
  qed
  then show ?thesis by (simp add: extend_def)
qed

text \<open>The conversion of a value used as a property name.\<close>

fun key_of :: "env \<Rightarrow> val \<Rightarrow> string" where
  "key_of env (Str s) = s"
| "key_of env v = toStr env v"

section \<open>Sizes of properties\<close>

lemma size_map_of:
  "map_of ps k = Some x \<Longrightarrow> size x < Suc (size_list (size_prod (\<lambda>_. 0) size) ps)"
  by (induction ps) (auto split: if_splits)

lemma size_nth: "i < length xs \<Longrightarrow> size (xs ! i) < Suc (size_list size xs)"
  using size_list_estimation' [of "xs ! i" xs "size (xs ! i)" size]
  by (simp add: less_Suc_eq_le)

lemma size_get_le: "size (get v k) \<le> size v"
proof (induction v k rule: get.induct)
  case (1 ps pr k)
  then show ?case
    using size_map_of [of ps k] by (auto split: option.splits)
next
  case (2 n ps k)
  then show ?case
    using size_map_of [of ps k] by (auto split: option.splits)
next
  case (3 xs k)
  then show ?case
    using size_nth [of _ xs] by (auto split: option.splits simp: less_imp_le)
qed (auto split: option.splits)

lemma size_get_less:
  "k \<noteq> ''length'' \<Longrightarrow> parse_index k = None \<Longrightarrow> get v k \<noteq> Undefined \<Longrightarrow> size (get v k) < size v"
proof (induction v k rule: get.induct)
  case (1 ps pr k)
  then show ?case
    using size_map_of [of ps k] by (auto split: option.splits)
next
  case (2 n ps k)
  then show ?case
    using size_map_of [of ps k] by (auto split: option.splits)
qed auto

lemma size_get_plain: "isPlainObject (get v k) \<Longrightarrow> size (get v k) < size v"
proof (induction v k rule: get.induct)
  case (1 ps pr k)
  then show ?case
    using size_map_of [of ps k] by (auto split: option.splits)
next
  case (2 n ps k)
  then show ?case
    using size_map_of [of ps k] by (auto split: option.splits)
next
  case (3 xs k)
  then show ?case
    using size_nth [of _ xs] by (auto split: option.splits if_splits)
qed (auto split: option.splits if_splits)

section \<open>The merge strategies\<close>

subsection \<open>Data\<close>

text \<open>
  \<^verbatim>\<open>mergeData(to, from)\<close> changes \<open>to\<close> in place and returns it; the model returns \<open>to\<close>
  after the call. \<open>mergeKeys\<close> is the loop over \<^verbatim>\<open>Object.keys(from)\<close>. The read \<^verbatim>\<open>to[key]\<close>
  fails when \<open>to\<close> is \<^verbatim>\<open>undefined\<close> or \<^verbatim>\<open>null\<close>. A new key goes through the reactive setter;
  the nested call changes the object at \<^verbatim>\<open>to[key]\<close> in place.
\<close>

function mergeData :: "env \<Rightarrow> val \<Rightarrow> val \<Rightarrow> error + val"
  and mergeKeys :: "env \<Rightarrow> val \<Rightarrow> val \<Rightarrow> string list \<Rightarrow> error + val" where
  "mergeData env to from =
     (if \<not> truthy from then Inr to else mergeKeys env to from (Object_keys from))"
| "mergeKeys env to from [] = Inr to"
| "mergeKeys env to from (key # keys) =
     (if nullish to then Inl TypeError
      else if \<not> hasOwn to key
        then mergeKeys env (reactive_set env to key (get from key)) from keys
      else if isPlainObject (get to key) \<and> isPlainObject (get from key)
        then (case mergeData env (get to key) (get from key) of
                Inl e \<Rightarrow> Inl e
              | Inr toVal \<Rightarrow> mergeKeys env (put to key toVal) from keys)
      else mergeKeys env to from keys)"
  by pat_completeness auto

termination
  by (relation "measures
        [\<lambda>x. case x of Inl (env, to, from) \<Rightarrow> size from | Inr (env, to, from, keys) \<Rightarrow> size from,
         \<lambda>x. case x of Inl (env, to, from) \<Rightarrow> 1 | Inr (env, to, from, keys) \<Rightarrow> 0,
         \<lambda>x. case x of Inl (env, to, from) \<Rightarrow> 0 | Inr (env, to, from, keys) \<Rightarrow> length keys]")
     (auto simp: size_get_plain)

declare mergeData.simps [simp del]

text \<open>
  A call \<^verbatim>\<open>f.call(this, args)\<close>. A caller-supplied function behaves as the environment
  says. \<^verbatim>\<open>mergedDataFn\<close> calls each side with \<^verbatim>\<open>this\<close> when it is a function, the child side
  first, and merges the parent's data into the child's; \<^verbatim>\<open>mergedInstanceDataFn\<close> calls
  them with the instance it captured, and returns the parent's data when the child's is
  falsy. Calling anything else is a \<^verbatim>\<open>TypeError\<close>.
\<close>

fun callFn :: "env \<Rightarrow> val \<Rightarrow> val \<Rightarrow> val list \<Rightarrow> error + val" where
  "callFn env (Fn n ps) this args =
     (case fenv env n this args of Inl x \<Rightarrow> Inl (Thrown x) | Inr v \<Rightarrow> Inr v)"
| "callFn env (MergedDataFn childVal parentVal) this args =
     (case (if isFunction childVal then callFn env childVal this [this] else Inr childVal) of
        Inl e \<Rightarrow> Inl e
      | Inr c \<Rightarrow>
          (case (if isFunction parentVal then callFn env parentVal this [this]
                 else Inr parentVal) of
             Inl e \<Rightarrow> Inl e
           | Inr p \<Rightarrow> mergeData env c p))"
| "callFn env (MergedInstanceDataFn childVal parentVal vm) this args =
     (case (if isFunction childVal then callFn env childVal vm [vm] else Inr childVal) of
        Inl e \<Rightarrow> Inl e
      | Inr instanceData \<Rightarrow>
          (case (if isFunction parentVal then callFn env parentVal vm [vm]
                 else Inr parentVal) of
             Inl e \<Rightarrow> Inl e
           | Inr defaultData \<Rightarrow>
               if truthy instanceData then mergeData env instanceData defaultData
               else Inr defaultData))"
| "callFn env v this args = Inl TypeError"

definition mergeDataOrFn :: "val \<Rightarrow> val \<Rightarrow> val \<Rightarrow> val" where
  "mergeDataOrFn parentVal childVal vm =
     (if \<not> truthy vm then
        (if \<not> truthy childVal then parentVal
         else if \<not> truthy parentVal then childVal
         else MergedDataFn childVal parentVal)
      else MergedInstanceDataFn childVal parentVal vm)"

text \<open>
  A strategy takes the parent's value, the child's value, the instance and the field
  name. \<^verbatim>\<open>strats.data\<close> calls \<^verbatim>\<open>mergeDataOrFn\<close> without the instance when there is none.
\<close>

type_synonym strategy = "val \<Rightarrow> val \<Rightarrow> val \<Rightarrow> string \<Rightarrow> val res"

definition strats_data :: "env \<Rightarrow> strategy" where
  "strats_data env parentVal childVal vm key =
     (if \<not> truthy vm then
        (if truthy childVal \<and> \<not> isFunction childVal
         then bindR (warn (dev env) WarnDataFunction) (\<lambda>_. ok parentVal)
         else ok (mergeDataOrFn parentVal childVal Undefined))
      else ok (mergeDataOrFn parentVal childVal vm))"

definition strats_provide :: "strategy" where
  "strats_provide parentVal childVal vm key = ok (mergeDataOrFn parentVal childVal vm)"

subsection \<open>Restricted fields and the default\<close>

definition defaultStrat :: "val \<Rightarrow> val \<Rightarrow> val" where
  "defaultStrat parentVal childVal = (if childVal = Undefined then parentVal else childVal)"

text \<open>The strategy of \<^verbatim>\<open>el\<close> and \<^verbatim>\<open>propsData\<close>, installed in a development build only.\<close>

definition strats_el :: "strategy" where
  "strats_el parent child vm key =
     bindR (warn (\<not> truthy vm) (WarnRestricted key)) (\<lambda>_. ok (defaultStrat parent child))"

subsection \<open>Hooks\<close>

text \<open>The elements that \<^verbatim>\<open>Array.prototype.concat\<close> appends for an argument.\<close>

fun elems :: "val \<Rightarrow> val list" where
  "elems (Arr xs) = xs"
| "elems v = [v]"

text \<open>
  \<^verbatim>\<open>parentVal.concat(childVal)\<close>: concatenation for an array, for a string the string
  followed by the argument converted to a string, else a call of the property
  \<^verbatim>\<open>concat\<close> when it is a function and a \<^verbatim>\<open>TypeError\<close> when it is not.
\<close>

fun js_concat :: "env \<Rightarrow> val \<Rightarrow> val \<Rightarrow> error + val" where
  "js_concat env (Arr xs) childVal = Inr (Arr (xs @ elems childVal))"
| "js_concat env (Str s) childVal = Inr (Str (s @ key_of env childVal))"
| "js_concat env parentVal childVal =
     (if isFunction (get parentVal ''concat'')
      then callFn env (get parentVal ''concat'') parentVal [childVal]
      else Inl TypeError)"

definition mergeHook :: "env \<Rightarrow> val \<Rightarrow> val \<Rightarrow> error + val" where
  "mergeHook env parentVal childVal =
     (if truthy childVal
      then (if truthy parentVal then js_concat env parentVal childVal
            else if isArray childVal then Inr childVal
            else Inr (Arr [childVal]))
      else Inr parentVal)"

definition strats_hook :: "env \<Rightarrow> strategy" where
  "strats_hook env parentVal childVal vm key = lift (mergeHook env parentVal childVal)"

subsection \<open>Assets, watchers and the other object hashes\<close>

text \<open>\<^verbatim>\<open>Object.create(v || null)\<close>: a new empty object whose prototype is \<open>v\<close>.\<close>

definition Object_create_or_null :: "val \<Rightarrow> error + val" where
  "Object_create_or_null v =
     (if \<not> truthy v then Inr (Obj [] Null)
      else if isObjectLike v then Inr (Obj [] v)
      else Inl TypeError)"

definition assertObjectType :: "bool \<Rightarrow> string \<Rightarrow> val \<Rightarrow> unit res" where
  "assertObjectType b name v = warn (b \<and> \<not> isPlainObject v) (WarnObjectType name v)"

definition mergeAssets :: "env \<Rightarrow> strategy" where
  "mergeAssets env parentVal childVal vm key =
     bindR (lift (Object_create_or_null parentVal)) (\<lambda>res.
       if truthy childVal
       then bindR (assertObjectType (dev env) key childVal) (\<lambda>_. ok (extend res childVal))
       else ok res)"

text \<open>One round of the loop of \<^verbatim>\<open>strats.watch\<close> over the child's watchers.\<close>

definition watch_step :: "val \<Rightarrow> val \<Rightarrow> string \<Rightarrow> val" where
  "watch_step childVal ret key =
     (let parent = get ret key;
          child = get childVal key;
          parent = (if truthy parent \<and> \<not> isArray parent then Arr [parent] else parent)
      in put ret key
           (if truthy parent then Arr (elems parent @ elems child)
            else if isArray child then child
            else Arr [child]))"

definition strats_watch :: "env \<Rightarrow> strategy" where
  "strats_watch env parentVal childVal vm key =
     (let parentVal = (if parentVal = nativeWatch env then Undefined else parentVal);
          childVal = (if childVal = nativeWatch env then Undefined else childVal)
      in if \<not> truthy childVal then lift (Object_create_or_null parentVal)
         else bindR (assertObjectType (dev env) key childVal) (\<lambda>_.
           if \<not> truthy parentVal then ok childVal
           else ok (foldl (watch_step childVal) (extend (Obj [] Null) parentVal)
                      (forin_keys childVal))))"

text \<open>The strategy shared by \<^verbatim>\<open>props\<close>, \<^verbatim>\<open>methods\<close>, \<^verbatim>\<open>inject\<close> and \<^verbatim>\<open>computed\<close>.\<close>

definition strats_props :: "env \<Rightarrow> strategy" where
  "strats_props env parentVal childVal vm key =
     bindR (assertObjectType (truthy childVal \<and> dev env) key childVal) (\<lambda>_.
       if \<not> truthy parentVal then ok childVal
       else (let ret = extend (Obj [] Null) parentVal
             in ok (if truthy childVal then extend ret childVal else ret)))"

subsection \<open>The registry\<close>

text \<open>
  The assignments to \<^verbatim>\<open>strats\<close> that the module makes when it is loaded, in the order of
  the source; \<^verbatim>\<open>config.optionMergeStrategies\<close> is empty before. A later assignment to a
  name replaces an earlier one, so a name is looked up from the end.
\<close>

definition strats_installs :: "env \<Rightarrow> (string \<times> strategy) list" where
  "strats_installs env =
     (if dev env then [(''el'', strats_el), (''propsData'', strats_el)] else [])
     @ [(''data'', strats_data env)]
     @ map (\<lambda>hook. (hook, strats_hook env)) (LIFECYCLE_HOOKS env)
     @ map (\<lambda>type. (type @ ''s'', mergeAssets env)) (ASSET_TYPES env)
     @ [(''watch'', strats_watch env),
        (''computed'', strats_props env),
        (''inject'', strats_props env),
        (''methods'', strats_props env),
        (''props'', strats_props env),
        (''provide'', strats_provide)]"

definition strats :: "env \<Rightarrow> string \<Rightarrow> strategy option" where
  "strats env key = map_of (rev (strats_installs env)) key"

section \<open>Normalizers\<close>

definition valid_name :: "string \<Rightarrow> bool" where
  "valid_name name =
     (case name of
        [] \<Rightarrow> False
      | c # cs \<Rightarrow> is_alpha c \<and> list_all (\<lambda>d. is_word_char d \<or> d = CHR ''-'') cs)"

definition validateComponentName :: "env \<Rightarrow> string \<Rightarrow> unit res" where
  "validateComponentName env name =
     bindR (warn (\<not> valid_name name) (WarnComponentName name)) (\<lambda>_.
       warn (isBuiltInTag env name \<or> isReservedTag env name) (WarnReservedName name))"

definition checkComponents :: "env \<Rightarrow> val \<Rightarrow> unit res" where
  "checkComponents env options =
     (if nullish options then throw TypeError
      else foldR (\<lambda>_ key. validateComponentName env key) ()
             (forin_keys (get options ''components'')))"

definition props_array_step :: "env \<Rightarrow> val \<Rightarrow> val \<Rightarrow> val res" where
  "props_array_step env res v =
     (case v of
        Str name \<Rightarrow> ok (put res (camelize name) (Obj [(''type'', Null)] Null))
      | _ \<Rightarrow> bindR (warn (dev env) WarnPropsStrings) (\<lambda>_. ok res))"

definition props_object_step :: "val \<Rightarrow> val \<Rightarrow> string \<Rightarrow> val" where
  "props_object_step props res key =
     (let v = get props key
      in put res (camelize key) (if isPlainObject v then v else Obj [(''type'', v)] Null))"

text \<open>
  The normalizers change \<open>options\<close> in place; the model returns \<open>options\<close> after the call.
  The array of \<^verbatim>\<open>props\<close> is read from its last element to its first.
  \<^verbatim>\<open>normalizeInject\<close> assigns the new empty object to \<^verbatim>\<open>options.inject\<close> and then fills it; the
  model fills the object and then assigns it, which leaves \<open>options\<close> the same.
\<close>

definition normalizeProps :: "env \<Rightarrow> val \<Rightarrow> val \<Rightarrow> val res" where
  "normalizeProps env options vm =
     (if nullish options then throw TypeError
      else let props = get options ''props''
      in if \<not> truthy props then ok options
         else bindR
           (if isArray props then foldR (props_array_step env) (Obj [] Null) (rev (elems props))
            else if isPlainObject props
              then ok (foldl (props_object_step props) (Obj [] Null) (forin_keys props))
            else bindR (warn (dev env) (WarnInvalidProps props)) (\<lambda>_. ok (Obj [] Null)))
           (\<lambda>res. ok (put options ''props'' res)))"

definition inject_array_step :: "env \<Rightarrow> val \<Rightarrow> val \<Rightarrow> val" where
  "inject_array_step env normalized v =
     put normalized (key_of env v) (Obj [(''from'', v)] Null)"

definition inject_object_step :: "val \<Rightarrow> val \<Rightarrow> string \<Rightarrow> val" where
  "inject_object_step inject normalized key =
     (let v = get inject key
      in put normalized key
           (if isPlainObject v then extend (Obj [(''from'', Str key)] Null) v
            else Obj [(''from'', v)] Null))"

definition normalizeInject :: "env \<Rightarrow> val \<Rightarrow> val \<Rightarrow> val res" where
  "normalizeInject env options vm =
     (if nullish options then throw TypeError
      else let inject = get options ''inject''
      in if \<not> truthy inject then ok options
         else bindR
           (if isArray inject
              then ok (foldl (inject_array_step env) (Obj [] Null) (elems inject))
            else if isPlainObject inject
              then ok (foldl (inject_object_step inject) (Obj [] Null) (forin_keys inject))
            else bindR (warn (dev env) (WarnInvalidInject inject)) (\<lambda>_. ok (Obj [] Null)))
           (\<lambda>normalized. ok (put options ''inject'' normalized)))"

definition directive_step :: "val \<Rightarrow> string \<Rightarrow> val" where
  "directive_step dirs key =
     (let def = get dirs key
      in if isFunction def then put dirs key (Obj [(''bind'', def), (''update'', def)] Null)
         else dirs)"

definition normalizeDirectives :: "val \<Rightarrow> val res" where
  "normalizeDirectives options =
     (if nullish options then throw TypeError
      else let dirs = get options ''directives''
      in if truthy dirs
         then ok (put_found options ''directives'' (foldl directive_step dirs (forin_keys dirs)))
         else ok options)"

section \<open>The merge driver\<close>

subsection \<open>Facts used for termination\<close>

lemma bindR_cong [fundef_cong]:
  "m = m' \<Longrightarrow> (\<And>x ws. m' = (Inr x, ws) \<Longrightarrow> f x = f' x) \<Longrightarrow> bindR m f = bindR m' f'"
  by (auto simp: bindR_def split: prod.splits sum.splits)

lemma bindR_Inr:
  "bindR m f = (Inr y, ws) \<longleftrightarrow>
     (\<exists>x ws1 ws2. m = (Inr x, ws1) \<and> f x = (Inr y, ws2) \<and> ws = ws1 @ ws2)"
  by (auto simp: bindR_def split: prod.splits sum.splits)

lemma ok_Inr [simp]: "ok x = (Inr y, ws) \<longleftrightarrow> y = x \<and> ws = []"
  by (auto simp: ok_def)

lemma throw_Inr [simp]: "throw e \<noteq> (Inr y, ws)"
  by (simp add: throw_def)

lemma warn_Inr [simp]: "warn b w = (Inr y, ws) \<longleftrightarrow> ws = (if b then [w] else [])"
  by (auto simp: warn_def)

lemma parse_index_names [simp]:
  "parse_index ''props'' = None" "parse_index ''inject'' = None"
  "parse_index ''directives'' = None" "parse_index ''extends'' = None"
  "parse_index ''mixins'' = None" "parse_index ''options'' = None"
  by (simp_all add: parse_index_def is_digit_def)

lemma get_put_other:
  "k \<noteq> k' \<Longrightarrow> parse_index k' = None \<Longrightarrow> get (put v k' x) k = get v k"
  by (cases v) (auto simp: update_conv')

lemma get_put_found_other:
  "k \<noteq> k' \<Longrightarrow> parse_index k' = None \<Longrightarrow> get (put_found v k' x) k = get v k"
  by (induction v k' x rule: put_found.induct)
     (auto simp: update_conv' get_put_other split: option.splits)

lemma normalizeProps_get:
  "normalizeProps env options vm = (Inr options', ws) \<Longrightarrow> k \<noteq> ''props'' \<Longrightarrow>
   get options' k = get options k"
  by (auto simp: normalizeProps_def Let_def bindR_Inr get_put_other split: if_splits)

lemma normalizeInject_get:
  "normalizeInject env options vm = (Inr options', ws) \<Longrightarrow> k \<noteq> ''inject'' \<Longrightarrow>
   get options' k = get options k"
  by (auto simp: normalizeInject_def Let_def bindR_Inr get_put_other split: if_splits)

lemma normalizeDirectives_get:
  "normalizeDirectives options = (Inr options', ws) \<Longrightarrow> k \<noteq> ''directives'' \<Longrightarrow>
   get options' k = get options k"
  by (auto simp: normalizeDirectives_def Let_def get_put_found_other split: if_splits)

lemma normalized_get:
  assumes "normalizeProps env child0 vm = (Inr child1, ws1)"
    and "normalizeInject env child1 vm = (Inr child2, ws2)"
    and "normalizeDirectives child2 = (Inr child3, ws3)"
    and "k \<noteq> ''props''" "k \<noteq> ''inject''" "k \<noteq> ''directives''"
  shows "get child3 k = get child0 k"
  using assms normalizeProps_get normalizeInject_get normalizeDirectives_get by metis

subsection \<open>Inheritance and the field pass\<close>

text \<open>
  The loop over \<^verbatim>\<open>child.mixins\<close> runs while \<^verbatim>\<open>i < child.mixins.length\<close>; a length that is
  not a number is converted by the language.
\<close>

fun loop_count :: "env \<Rightarrow> val \<Rightarrow> nat" where
  "loop_count env (Num n) = nat n"
| "loop_count env Undefined = 0"
| "loop_count env Null = 0"
| "loop_count env (Bool b) = (if b then 1 else 0)"
| "loop_count env v = (case toNumber env v of None \<Rightarrow> 0 | Some n \<Rightarrow> nat n)"

text \<open>
  The values \<^verbatim>\<open>mixins[i]\<close> that the loop reads, and \<open>mixins\<close> after the objects at these
  places have been changed in place into \<open>ms\<close>.
\<close>

definition mixin_elems :: "env \<Rightarrow> val \<Rightarrow> val list" where
  "mixin_elems env mixins =
     map (\<lambda>i. get mixins (string_of_nat i)) [0..<loop_count env (get mixins ''length'')]"

definition write_elems :: "val \<Rightarrow> val list \<Rightarrow> val" where
  "write_elems mixins ms =
     foldl (\<lambda>m (i, x). put_found m (string_of_nat i) x) mixins (zip [0..<length ms] ms)"

text \<open>
  The state of the field pass: the two objects it reads, the object \<^verbatim>\<open>options\<close> it
  builds, and the names \<^verbatim>\<open>mergeField\<close> has been called with, in order.
\<close>

record pass =
  p_parent :: val
  p_child :: val
  p_options :: val
  p_merged :: "string list"

text \<open>\<^verbatim>\<open>strats[key] || defaultStrat\<close>.\<close>

definition strat_for :: "env \<Rightarrow> string \<Rightarrow> strategy" where
  "strat_for env key =
     (case strats env key of
        Some strat \<Rightarrow> strat
      | None \<Rightarrow> (\<lambda>parentVal childVal vm key. ok (defaultStrat parentVal childVal)))"

definition mergeField :: "env \<Rightarrow> val \<Rightarrow> pass \<Rightarrow> string \<Rightarrow> pass res" where
  "mergeField env vm st key =
     bindR (strat_for env key (get (p_parent st) key) (get (p_child st) key) vm key) (\<lambda>v.
       ok (st\<lparr>p_options := put (p_options st) key v, p_merged := p_merged st @ [key]\<rparr>))"

definition mergeFields :: "env \<Rightarrow> val \<Rightarrow> pass \<Rightarrow> pass res" where
  "mergeFields env vm st =
     bindR (foldR (mergeField env vm) st (forin_keys (p_parent st))) (\<lambda>st.
       foldR (\<lambda>st key.
                if nullish (p_parent st) then throw TypeError
                else if \<not> hasOwn (p_parent st) key then mergeField env vm st key
                else ok st)
         st (forin_keys (p_child st)))"

text \<open>The largest size of a list of values, for the termination of the merge driver.\<close>

definition msize :: "val list \<Rightarrow> nat" where
  "msize ms = foldr (\<lambda>m a. max (size m) a) ms 0"

lemma msize_Cons [simp]: "msize (m # ms) = max (size m) (msize ms)"
  by (simp add: msize_def)

lemma msize_le: "(\<And>m. m \<in> set ms \<Longrightarrow> size m \<le> n) \<Longrightarrow> msize ms \<le> n"
  by (induction ms) (auto simp: msize_def)

lemma msize_mixin_elems: "msize (mixin_elems env mixins) \<le> size mixins"
  by (rule msize_le) (auto simp: mixin_elems_def size_get_le)

lemma size_child0: "size (if isFunction child then get child ''options'' else child) \<le> size child"
  by (simp add: size_get_le)

lemma truthy_defined: "truthy v \<Longrightarrow> v \<noteq> Undefined"
  by auto

text \<open>
  \<^verbatim>\<open>mergeOptions\<close> returns the new object \<^verbatim>\<open>options\<close>; the model returns with it \<open>child\<close>
  after the call, since the normalizers change \<open>child\<close>, the object it extends and its
  mixins in place. \<open>mergeMixins\<close> is the loop over \<^verbatim>\<open>child.mixins\<close>.
\<close>

function mergeOptions :: "env \<Rightarrow> val \<Rightarrow> val \<Rightarrow> val \<Rightarrow> (val \<times> val) res"
  and mergeMixins :: "env \<Rightarrow> val \<Rightarrow> val list \<Rightarrow> val \<Rightarrow> (val \<times> val list) res" where
  "mergeOptions env parent child vm =
     bindR (if dev env then checkComponents env child else ok ()) (\<lambda>_.
     let child0 = (if isFunction child then get child ''options'' else child) in
     bindR (normalizeProps env child0 vm) (\<lambda>child1.
     bindR (normalizeInject env child1 vm) (\<lambda>child2.
     bindR (normalizeDirectives child2) (\<lambda>child3.
     bindR (let extendsFrom = get child3 ''extends''
            in if truthy extendsFrom
               then bindR (mergeOptions env parent extendsFrom vm) (\<lambda>(parent, extendsFrom).
                      ok (parent, put_found child3 ''extends'' extendsFrom))
               else ok (parent, child3)) (\<lambda>(parent, child4).
     bindR (let mixins = get child4 ''mixins''
            in if truthy mixins
               then bindR (mergeMixins env parent (mixin_elems env mixins) vm) (\<lambda>(parent, ms).
                      ok (parent, put_found child4 ''mixins'' (write_elems mixins ms)))
               else ok (parent, child4)) (\<lambda>(parent, child5).
     bindR (mergeFields env vm
              \<lparr>p_parent = parent, p_child = child5, p_options = Obj [] Null, p_merged = []\<rparr>)
       (\<lambda>st. ok (p_options st,
                  if isFunction child then put child ''options'' child5 else child5))))))))"
| "mergeMixins env parent [] vm = ok (parent, [])"
| "mergeMixins env parent (m # ms) vm =
     bindR (mergeOptions env parent m vm) (\<lambda>(parent, m').
     bindR (mergeMixins env parent ms vm) (\<lambda>(parent, ms').
       ok (parent, m' # ms')))"
  by pat_completeness auto

termination
  apply (relation "measures
        [\<lambda>x. case x of Inl (env, parent, child, vm) \<Rightarrow> 2 * size child + 1
                      | Inr (env, parent, ms, vm) \<Rightarrow> 2 * msize ms + 2,
         \<lambda>x. case x of Inl (env, parent, child, vm) \<Rightarrow> 0
                      | Inr (env, parent, ms, vm) \<Rightarrow> length ms]")
proof (goal_cases)
  case 1
  show ?case by simp
next
  case (2 env parent child vm u ws child0 child1 ws1 child2 ws2 child3 ws3 extendsFrom)
  have "get child3 ''extends'' = get child0 ''extends''"
    using 2 normalized_get [of env child0 vm child1 ws1 child2 ws2 child3 ws3 "''extends''"]
    by simp
  moreover have "size (get child0 ''extends'') < size child0"
    using 2 calculation by (intro size_get_less) (auto dest: truthy_defined)
  moreover have "size child0 \<le> size child"
    using 2 by (simp add: size_get_le)
  ultimately show ?case using 2 by simp
next
  case (3 env parent child vm u ws child0 child1 ws1 child2 ws2 child3 ws3 r ws4 parent1 child4 mixins)
  have c4: "get child4 ''mixins'' = get child3 ''mixins''"
    using 3(6,7) by (auto simp: Let_def bindR_Inr get_put_found_other split: if_splits)
  have "get child3 ''mixins'' = get child0 ''mixins''"
    using 3 normalized_get [of env child0 vm child1 ws1 child2 ws2 child3 ws3 "''mixins''"]
    by simp
  moreover have "size (get child0 ''mixins'') < size child0"
    using 3 c4 calculation by (intro size_get_less) (auto dest: truthy_defined)
  moreover have "size child0 \<le> size child"
    using 3 by (simp add: size_get_le)
  ultimately show ?case
    using 3 c4 msize_mixin_elems [of env "get child4 ''mixins''"] by simp
qed auto

declare mergeOptions.simps [simp del]

section \<open>The asset resolver\<close>

text \<open>
  \<^verbatim>\<open>resolveAsset(options, type, id, warnMissing)\<close>. The registry \<^verbatim>\<open>options[type]\<close> is first
  searched for an own property under the three spellings; then the three reads are made
  along the prototype chain and the first truthy one is the result. An \<open>id\<close> that is not
  a string gives \<^verbatim>\<open>undefined\<close>. Without a registry the function fails: \<^verbatim>\<open>hasOwn\<close> or the
  read \<^verbatim>\<open>assets[id]\<close> is made on \<^verbatim>\<open>undefined\<close>.
\<close>

fun resolveAsset :: "env \<Rightarrow> val \<Rightarrow> string \<Rightarrow> val \<Rightarrow> val \<Rightarrow> val res" where
  "resolveAsset env options type (Str id') warnMissing =
     (if nullish options then throw TypeError
      else let assets = get options type
      in if nullish assets then throw TypeError
         else if hasOwn assets id' then ok (get assets id')
         else let camelizedId = camelize id'
         in if hasOwn assets camelizedId then ok (get assets camelizedId)
            else let PascalCaseId = capitalize camelizedId
            in if hasOwn assets PascalCaseId then ok (get assets PascalCaseId)
               else let res = (if truthy (get assets id') then get assets id'
                               else if truthy (get assets camelizedId)
                                 then get assets camelizedId
                               else get assets PascalCaseId)
               in bindR (warn (dev env \<and> truthy warnMissing \<and> \<not> truthy res)
                          (WarnResolve (butlast type) id'))
                    (\<lambda>_. ok res))"
| "resolveAsset env options type id' warnMissing = ok Undefined"

text \<open>
  The resolver as the specification words it, to compare with: the three spellings are
  looked up in order, each as an own or inherited property of the registry, and the
  first one found is returned.
\<close>

fun has_property :: "val \<Rightarrow> string \<Rightarrow> bool" where
  "has_property (Obj ps pr) k = (k \<in> set (map fst ps) \<or> has_property pr k)"
| "has_property v k = hasOwn v k"

definition resolveAsset_spec :: "val \<Rightarrow> string \<Rightarrow> string \<Rightarrow> val" where
  "resolveAsset_spec options type name =
     (let assets = get options type
      in if has_property assets name then get assets name
         else if has_property assets (camelize name) then get assets (camelize name)
         else if has_property assets (capitalize (camelize name))
           then get assets (capitalize (camelize name))
         else Undefined)"

section \<open>A development build\<close>

text \<open>
  The environment of the examples: a development build with the hook names and asset
  types of the framework, no native \<^verbatim>\<open>watch\<close>, the reactive setter acting as an
  assignment, and three caller-supplied functions: number 0 returns the object
  \<^verbatim>\<open>{a: 1}\<close>, number 1 returns \<^verbatim>\<open>undefined\<close>, and every other one throws the string
  \<^verbatim>\<open>boom\<close>.
\<close>

definition env_dev :: env where
  "env_dev =
     \<lparr>dev = True,
      LIFECYCLE_HOOKS =
        [''beforeCreate'', ''created'', ''beforeMount'', ''mounted'', ''beforeUpdate'',
         ''updated'', ''beforeDestroy'', ''destroyed'', ''activated'', ''deactivated'',
         ''errorCaptured''],
      ASSET_TYPES = [''component'', ''directive'', ''filter''],
      nativeWatch = Undefined,
      isBuiltInTag = (\<lambda>name. name = ''slot'' \<or> name = ''component''),
      isReservedTag = (\<lambda>name. False),
      reactive_set = put,
      fenv = (\<lambda>n this args.
                if n = 0 then Inr (Obj [(''a'', Num 1)] Null)
                else if n = 1 then Inr Undefined
                else Inl (Str ''boom'')),
      toStr = (\<lambda>v. ''[object]''),
      toNumber = (\<lambda>v. None)\<rparr>"

section \<open>Predicates of the statements\<close>

text \<open>
  The reactive setter acts on a plain object as the assignment \<^verbatim>\<open>target[key] = value\<close>
  (it introduces the field), and \<open>merged_key\<close> says what the merge has done to one key of
  the source.
\<close>

definition setter_assigns :: "env \<Rightarrow> bool" where
  "setter_assigns env = (\<forall>t k v. isPlainObject t \<longrightarrow> reactive_set env t k v = put t k v)"

definition merged_key :: "env \<Rightarrow> val \<Rightarrow> val \<Rightarrow> val \<Rightarrow> string \<Rightarrow> bool" where
  "merged_key env to from r k =
     (if \<not> hasOwn to k then get r k = get from k \<and> hasOwn r k
      else if isPlainObject (get to k) \<and> isPlainObject (get from k)
        then mergeData env (get to k) (get from k) = Inr (get r k)
      else get r k = get to k)"

text \<open>One side of a merged producer: the value itself, or what it returns when called.\<close>

definition produce :: "env \<Rightarrow> val \<Rightarrow> val \<Rightarrow> error + val" where
  "produce env v ctx = (if isFunction v then callFn env v ctx [ctx] else Inr v)"

text \<open>
  A configuration object is flat when it is an object without a prototype: all its
  fields are its own. \<open>pass_inv\<close> is what holds of the state of the field pass after
  every call of \<^verbatim>\<open>mergeField\<close>: the two objects read are the ones the pass began with, the
  object built has no prototype, its keys are the names merged so far, and under each
  of them it holds what the name's strategy returns for the parent's and the child's
  values.
\<close>

fun flat :: "val \<Rightarrow> bool" where
  "flat (Obj ps Null) = True"
| "flat v = False"

definition pass_inv :: "env \<Rightarrow> val \<Rightarrow> val \<Rightarrow> val \<Rightarrow> pass \<Rightarrow> bool" where
  "pass_inv env vm parent child st =
     (p_parent st = parent \<and> p_child st = child \<and> flat (p_options st) \<and>
      set (Object_keys (p_options st)) = set (p_merged st) \<and>
      list_all (\<lambda>k. fst (strat_for env k (get parent k) (get child k) vm k) =
                     Inr (get (p_options st) k)) (p_merged st))"

section \<open>Example configurations\<close>

text \<open>
  A parent \<open>ex_P\<close> and a child \<open>ex_C\<close> that extends \<open>ex_E\<close> and has the mixins \<open>ex_M1\<close> and
  \<open>ex_M2\<close>; what merging them gives; the state in which the field pass leaves \<open>ex_P\<close> and
  \<open>ex_M2\<close>; and a configuration whose fields all have a shape that the core warns
  about.
\<close>

definition ex_P :: val where
  "ex_P = Obj [(''a'', Num 1), (''b'', Num 1), (''c'', Num 1), (''d'', Num 1), (''e'', Num 1)] Null"

definition ex_E :: val where
  "ex_E = Obj [(''a'', Num 2), (''b'', Num 2), (''c'', Num 2), (''d'', Num 2)] Null"

definition ex_M1 :: val where
  "ex_M1 = Obj [(''a'', Num 3), (''b'', Num 3), (''c'', Num 3)] Null"

definition ex_M2 :: val where
  "ex_M2 = Obj [(''a'', Num 4), (''b'', Num 4)] Null"

definition ex_C :: val where
  "ex_C = Obj [(''extends'', ex_E), (''mixins'', Arr [ex_M1, ex_M2]), (''a'', Num 5)] Null"

definition ex_opts :: val where
  "ex_opts =
     Obj [(''a'', Num 5), (''b'', Num 4), (''c'', Num 3), (''d'', Num 2), (''e'', Num 1),
          (''extends'', ex_E), (''mixins'', Arr [ex_M1, ex_M2])] Null"

definition ex_pass :: pass where
  "ex_pass =
     \<lparr>p_parent = ex_P, p_child = ex_M2,
      p_options = Obj [(''a'', Num 4), (''b'', Num 4), (''c'', Num 1), (''d'', Num 1),
                       (''e'', Num 1)] Null,
      p_merged = [''a'', ''b'', ''c'', ''d'', ''e'']\<rparr>"


section \<open>Facts about properties and results\<close>

lemma parse_index_length [simp]: "parse_index ''length'' = None"
  by (simp add: parse_index_def is_digit_def)

lemma get_put_same:
  "truthy (get v k) \<Longrightarrow> parse_index k = None \<Longrightarrow> k \<noteq> ''length'' \<Longrightarrow> get (put v k x) k = x"
  by (cases v) (auto simp: update_conv')

lemma isPlainObject_put [simp]: "isPlainObject (put v k x) = isPlainObject v"
  by (cases v) (auto split: option.splits)

lemma isPlainObject_foldl_put:
  "(\<And>r k. isPlainObject (f r k) = isPlainObject r) \<Longrightarrow>
   isPlainObject (foldl f r ks) = isPlainObject r"
  by (induction ks arbitrary: r) auto

lemma truthy_not_nullish: "truthy (get options k) \<Longrightarrow> \<not> nullish options"
  by (cases options) auto

lemma map_of_const:
  "map_of (map (\<lambda>x. (f x, c)) xs) k = (if k \<in> f ` set xs then Some c else None)"
  by (induction xs) auto

lemma strats_eq:
  "strats env key =
     (if key = ''provide'' then Some strats_provide
      else if key \<in> {''props'', ''methods'', ''inject'', ''computed''} then Some (strats_props env)
      else if key = ''watch'' then Some (strats_watch env)
      else if key \<in> (\<lambda>type. type @ ''s'') ` set (ASSET_TYPES env) then Some (mergeAssets env)
      else if key \<in> set (LIFECYCLE_HOOKS env) then Some (strats_hook env)
      else if key = ''data'' then Some (strats_data env)
      else if dev env \<and> key \<in> {''el'', ''propsData''} then Some strats_el
      else None)"
  unfolding strats_def strats_installs_def
  by (simp add: rev_map map_of_const map_add_def split: option.splits)

lemma bindR_ok [simp]: "bindR (ok x) f = f x"
  by (simp add: bindR_def ok_def split: prod.splits)

lemma bindR_throw [simp]: "bindR (throw e) f = throw e"
  by (simp add: bindR_def throw_def)

lemma bindR_warn_False [simp]: "bindR (warn False w) f = f ()"
  by (simp add: bindR_def warn_def split: prod.splits)

lemma bindR_lift_Inr [simp]: "bindR (lift (Inr x)) f = f x"
  by (simp add: bindR_def lift_def split: prod.splits)

lemma bindR_Inr_pair: "bindR (Inr x, ws) f = (fst (f x), ws @ snd (f x))"
  by (simp add: bindR_def split: prod.splits)

lemma nub_simps [simp]: "nub [] = []" "nub [x] = [x]"
  by (simp_all add: nub_def)

lemma distinct_nub [simp]: "distinct (nub xs)"
  by (simp add: nub_def)

lemma set_nub [simp]: "set (nub xs) = set xs"
  by (simp add: nub_def)

lemma distinct_forin_keys [simp]: "distinct (forin_keys v)"
  by (cases v) (simp_all add: Object_keys_def)

lemma get_put_Obj:
  "isPlainObject r \<Longrightarrow> get (put r k x) n = (if n = k then x else get r n)"
  by (cases r) (auto simp: update_conv')

lemma get_foldl_put:
  "isPlainObject r \<Longrightarrow>
   get (foldl (\<lambda>r k. put r (f k) (g k)) r ks) n =
     (case filter (\<lambda>k. f k = n) ks of [] \<Rightarrow> get r n | k # ks' \<Rightarrow> g (last (k # ks')))"
proof (induction ks rule: rev_induct)
  case Nil
  then show ?case by simp
next
  case (snoc k ks)
  have "isPlainObject (foldl (\<lambda>r k. put r (f k) (g k)) r ks)"
    using snoc.prems by (simp add: isPlainObject_foldl_put)
  then show ?case
    using snoc by (auto simp: get_put_Obj split: list.splits)
qed

lemma filter_unique:
  assumes "distinct ks" "k \<in> set ks" "P k" "\<forall>k' \<in> set ks. P k' \<longrightarrow> k' = k"
  shows "filter P ks = [k]"
  using assms
proof (induction ks)
  case Nil
  then show ?case by simp
next
  case (Cons a ks)
  show ?case
  proof (cases "a = k")
    case True
    have "\<forall>x \<in> set ks. \<not> P x"
      using Cons.prems(1,4) True by fastforce
    then have "filter P ks = []"
      by (simp add: filter_empty_conv)
    then show ?thesis using True Cons.prems(3) by simp
  next
    case False
    have na: "\<not> P a" using Cons.prems(4) False by fastforce
    have kin: "k \<in> set ks" using Cons.prems(2) False by simp
    have d: "distinct ks" using Cons.prems(1) by simp
    have uq: "\<forall>k' \<in> set ks. P k' \<longrightarrow> k' = k" using Cons.prems(4) by fastforce
    have "filter P ks = [k]"
      by (rule Cons.IH [OF d kin Cons.prems(3) uq])
    then show ?thesis using na by simp
  qed
qed

lemma env_dev_sel [simp]:
  "dev env_dev = True"
  "LIFECYCLE_HOOKS env_dev =
     [''beforeCreate'', ''created'', ''beforeMount'', ''mounted'', ''beforeUpdate'',
      ''updated'', ''beforeDestroy'', ''destroyed'', ''activated'', ''deactivated'',
      ''errorCaptured'']"
  "ASSET_TYPES env_dev = [''component'', ''directive'', ''filter'']"
  "nativeWatch env_dev = Undefined"
  "reactive_set env_dev = put"
  by (simp_all add: env_dev_def)

section \<open>The injection normalizer\<close>

lemma isPlainObject_inject_array:
  "isPlainObject (foldl (inject_array_step env) (Obj [] Null) xs)"
  by (simp add: isPlainObject_foldl_put inject_array_step_def)

lemma isPlainObject_inject_object:
  "isPlainObject (foldl (inject_object_step inject) (Obj [] Null) ks)"
  by (simp add: isPlainObject_foldl_put inject_object_step_def Let_def)

text \<open>
  Claim C10. When \<^verbatim>\<open>options.inject\<close> is truthy, \<^verbatim>\<open>normalizeInject\<close> returns normally and
  leaves a plain object in the field. When the raw value is neither an array nor a plain
  object, the field is the empty object (the invalid value is not kept) and the only
  effect besides is the warning of a development build.
\<close>

theorem normalizeInject_plain_object:
  assumes "truthy (get options ''inject'')"
  shows "\<exists>options' ws. normalizeInject env options vm = (Inr options', ws) \<and>
           isPlainObject (get options' ''inject'') \<and>
           (\<not> isArray (get options ''inject'') \<and> \<not> isPlainObject (get options ''inject'') \<longrightarrow>
              get options' ''inject'' = Obj [] Null \<and>
              ws = (if dev env then [WarnInvalidInject (get options ''inject'')] else []))"
  using assms truthy_not_nullish [OF assms]
  by (auto simp: normalizeInject_def Let_def bindR_Inr get_put_same
        isPlainObject_inject_array isPlainObject_inject_object)

theorem normalizeInject_plain_object_witness:
  "truthy (get (Obj [(''inject'', Num 5)] Null) ''inject'') \<and>
   \<not> isArray (get (Obj [(''inject'', Num 5)] Null) ''inject'') \<and>
   \<not> isPlainObject (get (Obj [(''inject'', Num 5)] Null) ''inject'') \<and>
   (\<exists>options' ws.
      normalizeInject env_dev (Obj [(''inject'', Num 5)] Null) Undefined = (Inr options', ws) \<and>
      isPlainObject (get options' ''inject'') \<and>
      get options' ''inject'' = Obj [] Null \<and>
      ws = [WarnInvalidInject (Num 5)])"
  using normalizeInject_plain_object [of "Obj [(''inject'', Num 5)] Null" env_dev Undefined]
  by (simp add: env_dev_def)

section \<open>The property normalizer\<close>

lemma props_object_fold:
  "get (foldl (props_object_step props) (Obj [] Null) ks) n =
     (case filter (\<lambda>k. camelize k = n) ks of
        [] \<Rightarrow> Undefined
      | k # ks' \<Rightarrow> (let v = get props (last (k # ks'))
                   in if isPlainObject v then v else Obj [(''type'', v)] Null))"
proof -
  define g where
    "g = (\<lambda>k. if isPlainObject (get props k) then get props k else Obj [(''type'', get props k)] Null)"
  have "props_object_step props = (\<lambda>r k. put r (camelize k) (g k))"
    by (intro ext) (simp add: props_object_step_def Let_def g_def)
  then have "get (foldl (props_object_step props) (Obj [] Null) ks) n =
      (case filter (\<lambda>k. camelize k = n) ks of [] \<Rightarrow> get (Obj [] Null) n
       | k # ks' \<Rightarrow> g (last (k # ks')))"
    using get_foldl_put [of "Obj [] Null" camelize g ks n] by simp
  then show ?thesis
    by (simp add: g_def Let_def split: list.splits)
qed

lemma props_array_step_Str:
  "props_array_step env r (Str name) = ok (put r (camelize name) (Obj [(''type'', Null)] Null))"
  by (simp add: props_array_step_def)

lemma props_array_step_other:
  "\<not> isString v \<Longrightarrow>
   props_array_step env r v = (Inr r, if dev env then [WarnPropsStrings] else [])"
  by (cases v) (auto simp: props_array_step_def bindR_def warn_def ok_def)

lemma props_array_fold:
  "\<exists>res. foldR (props_array_step env) r vs =
           (Inr res, if dev env then replicate (length (filter (\<lambda>v. \<not> isString v) vs)) WarnPropsStrings
                     else []) \<and>
         isPlainObject res = isPlainObject r \<and>
         (isPlainObject r \<longrightarrow>
            (\<forall>n. get res n =
               (if \<exists>name. Str name \<in> set vs \<and> camelize name = n then Obj [(''type'', Null)] Null
                else get r n)))"
proof (induction vs arbitrary: r)
  case Nil
  then show ?case by simp
next
  case (Cons v vs)
  show ?case
  proof (cases "isString v")
    case True
    then obtain name where v: "v = Str name" by (cases v) auto
    show ?thesis
      using Cons.IH [of "put r (camelize name) (Obj [(''type'', Null)] Null)"] v
      by (auto simp: props_array_step_Str get_put_Obj)
  next
    case False
    then have "\<And>name. v \<noteq> Str name" by auto
    then show ?thesis
      using Cons.IH [of r] False
      by (auto simp: props_array_step_other bindR_Inr_pair)
  qed
qed

lemma camelize_a_b: "camelize ''a-b'' = ''aB''"
  by (simp add: camelize.simps is_word_char_def is_alpha_def is_digit_def to_upper_def)

lemma camelize_c: "camelize ''c'' = ''c''"
  by (simp add: camelize.simps)

lemma normalizeProps_absent:
  "\<not> nullish options \<Longrightarrow> \<not> truthy (get options ''props'') \<Longrightarrow>
   normalizeProps env options vm = (Inr options, [])"
  by (simp add: normalizeProps_def ok_def)

lemma normalizeProps_array:
  assumes props: "get options ''props'' = Arr xs"
  shows "\<exists>options'.
          normalizeProps env options vm =
            (Inr options',
             if dev env then replicate (length (filter (\<lambda>v. \<not> isString v) xs)) WarnPropsStrings
             else []) \<and>
          isPlainObject (get options' ''props'') \<and>
          (\<forall>n. get (get options' ''props'') n =
             (if \<exists>name. Str name \<in> set xs \<and> camelize name = n then Obj [(''type'', Null)] Null
              else Undefined))"
proof -
  have nn: "\<not> nullish options"
    using props truthy_not_nullish [of options "''props''"] by simp
  obtain res where res:
    "foldR (props_array_step env) (Obj [] Null) (rev xs) =
       (Inr res, if dev env then replicate (length (filter (\<lambda>v. \<not> isString v) (rev xs))) WarnPropsStrings
                 else [])"
    "isPlainObject res"
    "\<And>n. get res n =
       (if \<exists>name. Str name \<in> set (rev xs) \<and> camelize name = n then Obj [(''type'', Null)] Null
        else get (Obj [] Null) n)"
    using props_array_fold [of env "Obj [] Null" "rev xs"] by auto
  have len: "length (filter (\<lambda>v. \<not> isString v) (rev xs)) = length (filter (\<lambda>v. \<not> isString v) xs)"
    by (simp add: rev_filter [symmetric])
  have "normalizeProps env options vm =
          (Inr (put options ''props'' res),
           if dev env then replicate (length (filter (\<lambda>v. \<not> isString v) xs)) WarnPropsStrings
           else [])"
    using nn props res(1) len by (simp add: normalizeProps_def bindR_Inr_pair ok_def)
  moreover have "get (put options ''props'' res) ''props'' = res"
    using props by (simp add: get_put_same)
  moreover have "\<And>n. get res n =
       (if \<exists>name. Str name \<in> set xs \<and> camelize name = n then Obj [(''type'', Null)] Null
        else Undefined)"
    using res(3) by simp
  ultimately show ?thesis
    using res(2) by (intro exI [of _ "put options ''props'' res"]) simp
qed

lemma normalizeProps_object:
  assumes props: "get options ''props'' = Obj ps pr"
  shows "\<exists>options'.
          normalizeProps env options vm = (Inr options', []) \<and>
          (\<forall>n. get (get options' ''props'') n =
             (case filter (\<lambda>k. camelize k = n) (forin_keys (Obj ps pr)) of
                [] \<Rightarrow> Undefined
              | k # ks \<Rightarrow> (let v = get (Obj ps pr) (last (k # ks))
                          in if isPlainObject v then v else Obj [(''type'', v)] Null))) \<and>
          (\<forall>k \<in> set (forin_keys (Obj ps pr)).
             (\<forall>k' \<in> set (forin_keys (Obj ps pr)). camelize k' = camelize k \<longrightarrow> k' = k) \<longrightarrow>
             get (get options' ''props'') (camelize k) =
               (if isPlainObject (get (Obj ps pr) k) then get (Obj ps pr) k
                else Obj [(''type'', get (Obj ps pr) k)] Null))"
proof -
  have nn: "\<not> nullish options"
    using props truthy_not_nullish [of options "''props''"] by simp
  define props' where "props' = Obj ps pr"
  define res where "res = foldl (props_object_step props') (Obj [] Null) (forin_keys props')"
  have norm: "normalizeProps env options vm = (Inr (put options ''props'' res), [])"
    using nn props
    by (simp add: normalizeProps_def Let_def bindR_Inr_pair ok_def res_def props'_def
          del: forin_keys.simps)
  have same: "get (put options ''props'' res) ''props'' = res"
    using props by (simp add: get_put_same)
  have all: "get res n =
             (case filter (\<lambda>k. camelize k = n) (forin_keys props') of
                [] \<Rightarrow> Undefined
              | k # ks \<Rightarrow> (let v = get props' (last (k # ks))
                          in if isPlainObject v then v else Obj [(''type'', v)] Null))" for n
    unfolding res_def by (rule props_object_fold)
  have one: "get res (camelize k) =
               (if isPlainObject (get props' k) then get props' k
                else Obj [(''type'', get props' k)] Null)"
    if k: "k \<in> set (forin_keys props')"
      and uniq: "\<forall>k' \<in> set (forin_keys props'). camelize k' = camelize k \<longrightarrow> k' = k"
    for k
  proof -
    have "filter (\<lambda>k'. camelize k' = camelize k) (forin_keys props') = [k]"
      using k uniq distinct_forin_keys by (intro filter_unique) blast+
    then show ?thesis
      using all [of "camelize k"] by (simp add: Let_def)
  qed
  show ?thesis
    unfolding props'_def [symmetric]
  proof (intro exI [of _ "put options ''props'' res"] conjI allI ballI impI)
    show "normalizeProps env options vm = (Inr (put options ''props'' res), [])"
      by (rule norm)
  next
    fix n
    show "get (get (put options ''props'' res) ''props'') n =
         (case filter (\<lambda>k. camelize k = n) (forin_keys props') of
            [] \<Rightarrow> Undefined
          | k # ks \<Rightarrow> (let v = get props' (last (k # ks))
                      in if isPlainObject v then v else Obj [(''type'', v)] Null))"
      unfolding same by (rule all)
  next
    fix k
    assume "k \<in> set (forin_keys props')"
      and "\<forall>k' \<in> set (forin_keys props'). camelize k' = camelize k \<longrightarrow> k' = k"
    then show "get (get (put options ''props'' res) ''props'') (camelize k) =
               (if isPlainObject (get props' k) then get props' k
                else Obj [(''type'', get props' k)] Null)"
      unfolding same by (rule one)
  qed
qed

lemma normalizeProps_example_array:
  "normalizeProps env (Obj [(''props'', Arr [Str ''a-b''])] Null) vm =
      (Inr (Obj [(''props'', Obj [(''aB'', Obj [(''type'', Null)] Null)] Null)] Null), [])"
  by (simp add: normalizeProps_def props_array_step_Str camelize_a_b bindR_Inr_pair ok_def)

lemma normalizeProps_example_object:
  "normalizeProps env (Obj [(''props'', Obj [(''c'', Obj [(''type'', t)] Null)] Null)] Null) vm =
      (Inr (Obj [(''props'', Obj [(''c'', Obj [(''type'', t)] Null)] Null)] Null), [])"
  by (simp add: normalizeProps_def props_object_step_def camelize_c bindR_Inr_pair ok_def
        Object_keys_def)

text \<open>
  Claim C9. \<^verbatim>\<open>normalizeProps\<close> on a configuration that is not \<^verbatim>\<open>undefined\<close> or \<^verbatim>\<open>null\<close>:
  \<^item> without a truthy \<^verbatim>\<open>props\<close> it changes nothing and warns of nothing;
  \<^item> for an array, the normalized \<^verbatim>\<open>props\<close> holds \<^verbatim>\<open>{type: null}\<close> under the camel-cased name
    of every string element and nothing else, and a development build warns once for
    every element that is not a string;
  \<^item> for an object, the value under a name is the value of the last key (in the order of
    enumeration) whose camel-cased form is that name, itself when it is a plain object
    and wrapped as \<^verbatim>\<open>{type: value}\<close> otherwise; so a key whose camel-cased form no other
    key shares maps to its own value;
  \<^item> \<^verbatim>\<open>{props: ['a-b']}\<close> becomes \<^verbatim>\<open>{props: {aB: {type: null}}}\<close> and
    \<^verbatim>\<open>{props: {c: {type: t}}}\<close> is left as it is.
\<close>

theorem normalizeProps_canonical:
  assumes "\<not> nullish options"
  shows "(\<not> truthy (get options ''props'') \<longrightarrow> normalizeProps env options vm = (Inr options, [])) \<and>
    (\<forall>xs. get options ''props'' = Arr xs \<longrightarrow>
       (\<exists>options'.
          normalizeProps env options vm =
            (Inr options',
             if dev env then replicate (length (filter (\<lambda>v. \<not> isString v) xs)) WarnPropsStrings
             else []) \<and>
          isPlainObject (get options' ''props'') \<and>
          (\<forall>n. get (get options' ''props'') n =
             (if \<exists>name. Str name \<in> set xs \<and> camelize name = n then Obj [(''type'', Null)] Null
              else Undefined)))) \<and>
    (\<forall>ps pr. get options ''props'' = Obj ps pr \<longrightarrow>
       (\<exists>options'.
          normalizeProps env options vm = (Inr options', []) \<and>
          (\<forall>n. get (get options' ''props'') n =
             (case filter (\<lambda>k. camelize k = n) (forin_keys (Obj ps pr)) of
                [] \<Rightarrow> Undefined
              | k # ks \<Rightarrow> (let v = get (Obj ps pr) (last (k # ks))
                          in if isPlainObject v then v else Obj [(''type'', v)] Null))) \<and>
          (\<forall>k \<in> set (forin_keys (Obj ps pr)).
             (\<forall>k' \<in> set (forin_keys (Obj ps pr)). camelize k' = camelize k \<longrightarrow> k' = k) \<longrightarrow>
             get (get options' ''props'') (camelize k) =
               (if isPlainObject (get (Obj ps pr) k) then get (Obj ps pr) k
                else Obj [(''type'', get (Obj ps pr) k)] Null)))) \<and>
    normalizeProps env (Obj [(''props'', Arr [Str ''a-b''])] Null) vm =
      (Inr (Obj [(''props'', Obj [(''aB'', Obj [(''type'', Null)] Null)] Null)] Null), []) \<and>
    normalizeProps env (Obj [(''props'', Obj [(''c'', Obj [(''type'', t)] Null)] Null)] Null) vm =
      (Inr (Obj [(''props'', Obj [(''c'', Obj [(''type'', t)] Null)] Null)] Null), [])"
proof (intro conjI allI impI)
  assume "\<not> truthy (get options ''props'')"
  then show "normalizeProps env options vm = (Inr options, [])"
    using assms by (rule normalizeProps_absent [rotated])
next
  fix xs
  assume "get options ''props'' = Arr xs"
  then show "\<exists>options'.
          normalizeProps env options vm =
            (Inr options',
             if dev env then replicate (length (filter (\<lambda>v. \<not> isString v) xs)) WarnPropsStrings
             else []) \<and>
          isPlainObject (get options' ''props'') \<and>
          (\<forall>n. get (get options' ''props'') n =
             (if \<exists>name. Str name \<in> set xs \<and> camelize name = n then Obj [(''type'', Null)] Null
              else Undefined))"
    by (rule normalizeProps_array)
next
  fix ps pr
  assume "get options ''props'' = Obj ps pr"
  then show "\<exists>options'.
          normalizeProps env options vm = (Inr options', []) \<and>
          (\<forall>n. get (get options' ''props'') n =
             (case filter (\<lambda>k. camelize k = n) (forin_keys (Obj ps pr)) of
                [] \<Rightarrow> Undefined
              | k # ks \<Rightarrow> (let v = get (Obj ps pr) (last (k # ks))
                          in if isPlainObject v then v else Obj [(''type'', v)] Null))) \<and>
          (\<forall>k \<in> set (forin_keys (Obj ps pr)).
             (\<forall>k' \<in> set (forin_keys (Obj ps pr)). camelize k' = camelize k \<longrightarrow> k' = k) \<longrightarrow>
             get (get options' ''props'') (camelize k) =
               (if isPlainObject (get (Obj ps pr) k) then get (Obj ps pr) k
                else Obj [(''type'', get (Obj ps pr) k)] Null))"
    by (rule normalizeProps_object)
qed (rule normalizeProps_example_array normalizeProps_example_object)+

theorem normalizeProps_canonical_witness:
  "\<not> nullish (Obj [(''props'', Arr [Str ''a-b'', Num 3])] Null) \<and>
   (\<exists>options'.
      normalizeProps env_dev (Obj [(''props'', Arr [Str ''a-b'', Num 3])] Null) Undefined =
        (Inr options', [WarnPropsStrings]) \<and>
      get (get options' ''props'') ''aB'' = Obj [(''type'', Null)] Null \<and>
      get (get options' ''props'') ''a-b'' = Undefined) \<and>
   (\<exists>options'.
      normalizeProps env_dev
        (Obj [(''props'', Obj [(''a-b'', Num 1), (''c'', Obj [(''type'', Fn 0 [])] Null)] Null)] Null)
        Undefined = (Inr options', []) \<and>
      get (get options' ''props'') ''aB'' = Obj [(''type'', Num 1)] Null \<and>
      get (get options' ''props'') ''c'' = Obj [(''type'', Fn 0 [])] Null) \<and>
   \<not> truthy (get (Obj [(''data'', Num 1)] Null) ''props'') \<and>
   normalizeProps env_dev (Obj [(''data'', Num 1)] Null) Undefined =
     (Inr (Obj [(''data'', Num 1)] Null), [])"
proof -
  let ?props = "Obj [(''a-b'', Num 1), (''c'', Obj [(''type'', Fn 0 [])] Null)] Null"
  have keys: "forin_keys ?props = [''a-b'', ''c'']"
    by (simp add: nub_def Object_keys_def)
  have nn: "\<not> nullish (Obj [(''props'', ?props)] Null)"
    by simp
  have gp: "get (Obj [(''props'', ?props)] Null) ''props'' = ?props"
    by simp
  note T = normalizeProps_canonical [OF nn, of env_dev Undefined, THEN conjunct2,
      THEN conjunct2, THEN conjunct1, rule_format, OF gp]
  obtain options' where o:
    "normalizeProps env_dev (Obj [(''props'', ?props)] Null) Undefined = (Inr options', [])"
    "\<forall>k \<in> set (forin_keys ?props).
        (\<forall>k' \<in> set (forin_keys ?props). camelize k' = camelize k \<longrightarrow> k' = k) \<longrightarrow>
        get (get options' ''props'') (camelize k) =
          (if isPlainObject (get ?props k) then get ?props k
           else Obj [(''type'', get ?props k)] Null)"
    using T by blast
  have u1: "\<forall>k' \<in> set (forin_keys ?props). camelize k' = camelize ''a-b'' \<longrightarrow> k' = ''a-b''"
    unfolding keys by (simp add: camelize_a_b camelize_c)
  have u2: "\<forall>k' \<in> set (forin_keys ?props). camelize k' = camelize ''c'' \<longrightarrow> k' = ''c''"
    unfolding keys by (simp add: camelize_a_b camelize_c)
  have i1: "''a-b'' \<in> set (forin_keys ?props)" and i2: "''c'' \<in> set (forin_keys ?props)"
    unfolding keys by simp_all
  have m: "get (get options' ''props'') ''aB'' = Obj [(''type'', Num 1)] Null"
    "get (get options' ''props'') ''c'' = Obj [(''type'', Fn 0 [])] Null"
    using o(2) [rule_format, OF i1 u1 [rule_format]] o(2) [rule_format, OF i2 u2 [rule_format]]
    by (simp_all add: camelize_a_b camelize_c)
  have a: "\<exists>options'.
      normalizeProps env_dev (Obj [(''props'', Arr [Str ''a-b'', Num 3])] Null) Undefined =
        (Inr options', [WarnPropsStrings]) \<and>
      get (get options' ''props'') ''aB'' = Obj [(''type'', Null)] Null \<and>
      get (get options' ''props'') ''a-b'' = Undefined"
    using normalizeProps_canonical [of "Obj [(''props'', Arr [Str ''a-b'', Num 3])] Null" env_dev Undefined]
    by (fastforce simp: camelize_a_b)
  have n: "normalizeProps env_dev (Obj [(''data'', Num 1)] Null) Undefined =
     (Inr (Obj [(''data'', Num 1)] Null), [])"
    using normalizeProps_canonical [of "Obj [(''data'', Num 1)] Null" env_dev Undefined]
    by simp
  have b: "\<exists>options'.
      normalizeProps env_dev (Obj [(''props'', ?props)] Null) Undefined = (Inr options', []) \<and>
      get (get options' ''props'') ''aB'' = Obj [(''type'', Num 1)] Null \<and>
      get (get options' ''props'') ''c'' = Obj [(''type'', Fn 0 [])] Null"
    using o(1) m by blast
  have z: "\<not> nullish (Obj [(''props'', Arr [Str ''a-b'', Num 3])] Null)"
    "\<not> truthy (get (Obj [(''data'', Num 1)] Null) ''props'')"
    by simp_all
  show ?thesis
    by (intro conjI) (rule z a b n)+
qed

section \<open>The hook strategy\<close>








section \<open>The strategies of data and provide\<close>

lemma strat_for_provide: "strat_for env ''provide'' = strats_provide"
  by (simp add: strat_for_def strats_eq)

lemma strat_for_data:
  "''data'' \<notin> set (LIFECYCLE_HOOKS env) \<Longrightarrow>
   ''data'' \<notin> (\<lambda>type. type @ ''s'') ` set (ASSET_TYPES env) \<Longrightarrow>
   strat_for env ''data'' = strats_data env"
  by (simp add: strat_for_def strats_eq)

text \<open>
  Claim C5, as amended. The strategy registered for \<^verbatim>\<open>provide\<close> is \<^verbatim>\<open>mergeDataOrFn\<close> itself,
  not \<^verbatim>\<open>strats.data\<close>. The two agree whenever there is an instance, or the child's value is
  falsy or a function (\<^verbatim>\<open>data\<close> being a name that neither a hook nor an asset type
  takes over).
\<close>

theorem provide_strategy_is_mergeDataOrFn:
  assumes "''data'' \<notin> set (LIFECYCLE_HOOKS env)"
    and "''data'' \<notin> (\<lambda>type. type @ ''s'') ` set (ASSET_TYPES env)"
  shows "strat_for env ''provide'' parentVal childVal vm ''provide'' =
           ok (mergeDataOrFn parentVal childVal vm) \<and>
         (truthy vm \<or> \<not> truthy childVal \<or> isFunction childVal \<longrightarrow>
            strat_for env ''data'' parentVal childVal vm ''data'' =
            strat_for env ''provide'' parentVal childVal vm ''provide'')"
  using assms
  by (auto simp: strat_for_provide strat_for_data strats_provide_def strats_data_def
        mergeDataOrFn_def)

theorem provide_strategy_is_mergeDataOrFn_witness:
  "''data'' \<notin> set (LIFECYCLE_HOOKS env_dev) \<and>
   ''data'' \<notin> (\<lambda>type. type @ ''s'') ` set (ASSET_TYPES env_dev) \<and>
   isFunction (Fn 1 []) \<and>
   strat_for env_dev ''provide'' (Fn 0 []) (Fn 1 []) Undefined ''provide'' =
     ok (MergedDataFn (Fn 1 []) (Fn 0 [])) \<and>
   strat_for env_dev ''data'' (Fn 0 []) (Fn 1 []) Undefined ''data'' =
     strat_for env_dev ''provide'' (Fn 0 []) (Fn 1 []) Undefined ''provide''"
  using provide_strategy_is_mergeDataOrFn [of env_dev "Fn 0 []" "Fn 1 []" Undefined]
  by (simp add: env_dev_def mergeDataOrFn_def)

text \<open>
  Without an instance and with a child value that is an object and not a function, the
  two differ: \<^verbatim>\<open>strats.data\<close> warns and returns the parent's value, \<^verbatim>\<open>strats.provide\<close>
  returns the child's.
\<close>

theorem provide_strategy_counterexample:
  "strat_for env_dev ''data'' Undefined (Obj [(''a'', Num 1)] Null) Undefined ''data'' =
     (Inr Undefined, [WarnDataFunction]) \<and>
   strat_for env_dev ''provide'' Undefined (Obj [(''a'', Num 1)] Null) Undefined ''provide'' =
     (Inr (Obj [(''a'', Num 1)] Null), [])"
  by code_simp

section \<open>The order of the asset resolver\<close>

lemma resolveAsset_unfold:
  assumes "\<not> nullish options" "\<not> nullish (get options type)"
  shows "fst (resolveAsset env options type (Str name) warnMissing) =
     Inr (let assets = get options type; c = camelize name; p = capitalize c
          in if hasOwn assets name then get assets name
             else if hasOwn assets c then get assets c
             else if hasOwn assets p then get assets p
             else if truthy (get assets name) then get assets name
             else if truthy (get assets c) then get assets c
             else get assets p)"
  using assms by (simp add: Let_def ok_def bindR_def warn_def)

lemma camelize_foo_bar: "camelize ''foo-bar'' = ''fooBar''" "capitalize ''fooBar'' = ''FooBar''"
  by (simp_all add: camelize.simps is_word_char_def is_alpha_def to_upper_def)

text \<open>
  Claim C1, as amended. With a registry present, \<^verbatim>\<open>resolveAsset\<close> returns the first
  spelling (exact, camel-case, Pascal-case) that is an own property of the registry; only
  when none of the three is an own property are the spellings read along the prototype
  chain, in the same order, and the first truthy value (else the last read) is returned.
\<close>

theorem resolveAsset_own_first:
  assumes "\<not> nullish options" "\<not> nullish (get options type)"
  shows "let assets = get options type;
             c = camelize name;
             p = capitalize (camelize name);
             r = fst (resolveAsset env options type (Str name) warnMissing)
    in (hasOwn assets name \<longrightarrow> r = Inr (get assets name)) \<and>
       (\<not> hasOwn assets name \<and> hasOwn assets c \<longrightarrow> r = Inr (get assets c)) \<and>
       (\<not> hasOwn assets name \<and> \<not> hasOwn assets c \<and> hasOwn assets p \<longrightarrow>
          r = Inr (get assets p)) \<and>
       (\<not> hasOwn assets name \<and> \<not> hasOwn assets c \<and> \<not> hasOwn assets p \<longrightarrow>
          (truthy (get assets name) \<longrightarrow> r = Inr (get assets name)) \<and>
          (\<not> truthy (get assets name) \<and> truthy (get assets c) \<longrightarrow> r = Inr (get assets c)) \<and>
          (\<not> truthy (get assets name) \<and> \<not> truthy (get assets c) \<longrightarrow> r = Inr (get assets p)))"
  unfolding Let_def resolveAsset_unfold [OF assms, unfolded Let_def]
  by simp

theorem resolveAsset_own_first_witness:
  "\<not> nullish (Obj [(''components'', Obj [(''fooBar'', Fn 2 [])] (Obj [(''foo-bar'', Fn 1 [])] Null))] Null) \<and>
   \<not> hasOwn (Obj [(''fooBar'', Fn 2 [])] (Obj [(''foo-bar'', Fn 1 [])] Null)) ''foo-bar'' \<and>
   hasOwn (Obj [(''fooBar'', Fn 2 [])] (Obj [(''foo-bar'', Fn 1 [])] Null)) ''fooBar'' \<and>
   fst (resolveAsset env_dev (Obj [(''components'', Obj [(''fooBar'', Fn 2 [])] (Obj [(''foo-bar'', Fn 1 [])] Null))] Null)
     ''components'' (Str ''foo-bar'') Undefined) = Inr (Fn 2 []) \<and>
   \<not> hasOwn (Obj [] (Obj [(''foo-bar'', Fn 1 []), (''fooBar'', Fn 2 [])] Null)) ''foo-bar'' \<and>
   \<not> hasOwn (Obj [] (Obj [(''foo-bar'', Fn 1 []), (''fooBar'', Fn 2 [])] Null)) ''fooBar'' \<and>
   \<not> hasOwn (Obj [] (Obj [(''foo-bar'', Fn 1 []), (''fooBar'', Fn 2 [])] Null)) ''FooBar'' \<and>
   truthy (Fn 1 []) \<and>
   fst (resolveAsset env_dev (Obj [(''components'', Obj [] (Obj [(''foo-bar'', Fn 1 []), (''fooBar'', Fn 2 [])] Null))] Null)
     ''components'' (Str ''foo-bar'') Undefined) = Inr (Fn 1 [])"
  using resolveAsset_own_first [of
      "Obj [(''components'', Obj [(''fooBar'', Fn 2 [])] (Obj [(''foo-bar'', Fn 1 [])] Null))] Null"
      "''components''" "''foo-bar''" env_dev Undefined]
    resolveAsset_own_first [of
      "Obj [(''components'', Obj [] (Obj [(''foo-bar'', Fn 1 []), (''fooBar'', Fn 2 [])] Null))] Null"
      "''components''" "''foo-bar''" env_dev Undefined]
  by (simp add: camelize_foo_bar Let_def del: resolveAsset.simps)

text \<open>
  With the camel-case spelling registered locally and the exact spelling inherited, the
  resolver returns the local camel-case asset, where the lookup in the order of the
  specification over own-or-inherited properties finds the inherited exact one.
\<close>

theorem resolveAsset_order_counterexample:
  "resolveAsset env_dev (Obj [(''components'', Obj [(''fooBar'', Fn 2 [])] (Obj [(''foo-bar'', Fn 1 [])] Null))] Null)
     ''components'' (Str ''foo-bar'') Undefined = (Inr (Fn 2 []), []) \<and>
   resolveAsset_spec (Obj [(''components'', Obj [(''fooBar'', Fn 2 [])] (Obj [(''foo-bar'', Fn 1 [])] Null))] Null)
     ''components'' ''foo-bar'' = Fn 1 []"
  by (simp add: resolveAsset_spec_def camelize.simps is_word_char_def is_alpha_def to_upper_def ok_def)

section \<open>The deep merge of data\<close>

lemma hasOwn_put_Obj:
  "isPlainObject t \<Longrightarrow> hasOwn (put t k v) k' = (k' = k \<or> hasOwn t k')"
  by (cases t) (auto simp: dom_update image_iff)

lemma plain_not_nullish: "isPlainObject t \<Longrightarrow> \<not> nullish t"
  by (cases t) auto

lemma plain_truthy: "isPlainObject t \<Longrightarrow> truthy t"
  by (cases t) auto

lemma mergeData_total:
  "setter_assigns env \<Longrightarrow> isPlainObject to \<Longrightarrow>
     \<exists>r. mergeData env to from = Inr r \<and> isPlainObject r"
  "setter_assigns env \<Longrightarrow> isPlainObject to \<Longrightarrow>
     \<exists>r. mergeKeys env to from keys = Inr r \<and> isPlainObject r"
proof (induction env to "from" and env to "from" keys rule: mergeData_mergeKeys.induct)
  case (1 env to "from")
  then show ?case by (auto simp: mergeData.simps)
next
  case (2 env to "from")
  then show ?case by simp
next
  case (3 env to "from" key keys)
  have sa: "setter_assigns env" and pl: "isPlainObject to"
    using "3.prems" by simp_all
  have nn: "\<not> nullish to" using pl by (rule plain_not_nullish)
  show ?case
  proof (cases "hasOwn to key")
    case False
    have eq: "reactive_set env to key (get from key) = put to key (get from key)"
      using sa pl by (simp add: setter_assigns_def)
    show ?thesis
      using "3.IH"(1) [OF nn False sa] eq pl False nn by simp
  next
    case True
    then have nh: "\<not> \<not> hasOwn to key" by simp
    show ?thesis
    proof (cases "isPlainObject (get to key) \<and> isPlainObject (get from key)")
      case both: True
      obtain toVal where toVal: "mergeData env (get to key) (get from key) = Inr toVal"
        using "3.IH"(2) [OF nn nh both sa] both by auto
      show ?thesis
        using "3.IH"(3) [OF nn nh both toVal sa] True pl both toVal nn by simp
    next
      case False
      then show ?thesis
        using "3.IH"(4) [OF nn nh False sa pl] True nn by auto
    qed
  qed
qed

lemma merged_key_cong:
  "get to' k = get to k \<Longrightarrow> hasOwn to' k = hasOwn to k \<Longrightarrow>
   get r' k = get r k \<Longrightarrow> hasOwn r' k = hasOwn r k \<Longrightarrow>
   merged_key env to' from r' k = merged_key env to from r k"
  by (simp add: merged_key_def)

lemma mergeKeys_step:
  assumes sa: "setter_assigns env" and pl: "isPlainObject to"
  shows "\<exists>to1. mergeKeys env to from (key # keys) = mergeKeys env to1 from keys \<and>
           isPlainObject to1 \<and> merged_key env to from to1 key \<and>
           (\<forall>k. k \<noteq> key \<longrightarrow> get to1 k = get to k \<and> hasOwn to1 k = hasOwn to k)"
proof -
  have nn: "\<not> nullish to" using pl by (rule plain_not_nullish)
  show ?thesis
  proof (cases "hasOwn to key")
    case False
    have eq: "reactive_set env to key (get from key) = put to key (get from key)"
      using sa pl by (simp add: setter_assigns_def)
    show ?thesis
      using False nn eq pl
      by (intro exI [of _ "put to key (get from key)"])
         (simp add: merged_key_def get_put_Obj hasOwn_put_Obj)
  next
    case True
    show ?thesis
    proof (cases "isPlainObject (get to key) \<and> isPlainObject (get from key)")
      case both: True
      obtain toVal where toVal: "mergeData env (get to key) (get from key) = Inr toVal"
        using mergeData_total(1) [OF sa, of "get to key" "get from key"] both by auto
      show ?thesis
        using True nn both toVal pl
        by (intro exI [of _ "put to key toVal"])
           (auto simp: merged_key_def get_put_Obj hasOwn_put_Obj)
    next
      case False
      then show ?thesis
        using True nn pl by (intro exI [of _ to]) (auto simp: merged_key_def)
    qed
  qed
qed

lemma mergeKeys_char:
  assumes sa: "setter_assigns env"
  shows "isPlainObject to \<Longrightarrow> distinct keys \<Longrightarrow>
     \<exists>r. mergeKeys env to from keys = Inr r \<and> isPlainObject r \<and>
         (\<forall>k. if k \<in> set keys then merged_key env to from r k
              else get r k = get to k \<and> hasOwn r k = hasOwn to k)"
proof (induction keys arbitrary: to)
  case Nil
  then show ?case by simp
next
  case (Cons key keys)
  obtain to1 where to1:
    "mergeKeys env to from (key # keys) = mergeKeys env to1 from keys"
    "isPlainObject to1" "merged_key env to from to1 key"
    "\<And>k. k \<noteq> key \<Longrightarrow> get to1 k = get to k \<and> hasOwn to1 k = hasOwn to k"
    using mergeKeys_step [OF sa Cons.prems(1), of "from" key keys] by blast
  have d: "distinct keys" and nk: "key \<notin> set keys"
    using Cons.prems(2) by simp_all
  obtain r where r:
    "mergeKeys env to1 from keys = Inr r" "isPlainObject r"
    "\<And>k. if k \<in> set keys then merged_key env to1 from r k
          else get r k = get to1 k \<and> hasOwn r k = hasOwn to1 k"
    using Cons.IH [OF to1(2) d] by blast
  have "if k \<in> set (key # keys) then merged_key env to from r k
        else get r k = get to k \<and> hasOwn r k = hasOwn to k" for k
  proof (cases "k = key")
    case True
    have "get r key = get to1 key \<and> hasOwn r key = hasOwn to1 key"
      using r(3) [of key] nk by simp
    then have "merged_key env to from r key = merged_key env to from to1 key"
      by (intro merged_key_cong) simp_all
    then show ?thesis using True to1(3) by simp
  next
    case False
    show ?thesis
    proof (cases "k \<in> set keys")
      case True
      have "merged_key env to1 from r k = merged_key env to from r k"
        using to1(4) [OF False] by (intro merged_key_cong) simp_all
      then show ?thesis using True r(3) [of k] by simp
    next
      case notin: False
      then show ?thesis using False r(3) [of k] to1(4) [OF False] by simp
    qed
  qed
  then show ?case using to1(1) r(1,2) by auto
qed

lemma distinct_Object_keys [simp]: "distinct (Object_keys v)"
  by (simp add: Object_keys_def)

lemma mergeData_deep_merge_lemma:
  assumes "setter_assigns env" "isPlainObject to" "isPlainObject from"
  shows "\<exists>r. mergeData env to from = Inr r \<and> isPlainObject r \<and>
    (\<forall>k. (k \<in> set (Object_keys from) \<and> \<not> hasOwn to k \<longrightarrow>
            get r k = get from k \<and> hasOwn r k) \<and>
         (k \<in> set (Object_keys from) \<and> hasOwn to k \<and>
          isPlainObject (get to k) \<and> isPlainObject (get from k) \<longrightarrow>
            mergeData env (get to k) (get from k) = Inr (get r k)) \<and>
         (k \<in> set (Object_keys from) \<and> hasOwn to k \<and>
          \<not> (isPlainObject (get to k) \<and> isPlainObject (get from k)) \<longrightarrow>
            get r k = get to k) \<and>
         (k \<notin> set (Object_keys from) \<longrightarrow> get r k = get to k \<and> hasOwn r k = hasOwn to k))"
proof -
  obtain r where r:
    "mergeKeys env to from (Object_keys from) = Inr r" "isPlainObject r"
    "\<And>k. if k \<in> set (Object_keys from) then merged_key env to from r k
          else get r k = get to k \<and> hasOwn r k = hasOwn to k"
    using mergeKeys_char [OF assms(1,2), of "Object_keys from" "from"] by auto
  have "mergeData env to from = Inr r"
    using r(1) plain_truthy [OF assms(3)] by (simp add: mergeData.simps)
  moreover have "(k \<in> set (Object_keys from) \<and> \<not> hasOwn to k \<longrightarrow>
            get r k = get from k \<and> hasOwn r k) \<and>
         (k \<in> set (Object_keys from) \<and> hasOwn to k \<and>
          isPlainObject (get to k) \<and> isPlainObject (get from k) \<longrightarrow>
            mergeData env (get to k) (get from k) = Inr (get r k)) \<and>
         (k \<in> set (Object_keys from) \<and> hasOwn to k \<and>
          \<not> (isPlainObject (get to k) \<and> isPlainObject (get from k)) \<longrightarrow>
            get r k = get to k) \<and>
         (k \<notin> set (Object_keys from) \<longrightarrow> get r k = get to k \<and> hasOwn r k = hasOwn to k)" for k
    using r(3) [of k] by (auto simp: merged_key_def split: if_splits)
  ultimately show ?thesis using r(2) by blast
qed




section \<open>Merged producers\<close>

text \<open>
  Claim C3, as amended. When the parent's and the child's values are both truthy,
  \<^verbatim>\<open>mergeDataOrFn\<close> returns a function. Called, it evaluates the child's side and then the
  parent's (calling each when it is a function, with the instance when there is one) and
  merges the parent's data into the child's; with an instance, it returns the parent's
  data when the child's is falsy. The merge returns the child's data when the parent's
  is falsy; for plain objects, the child's value wins under a key both have unless both
  values are plain objects, which are merged in turn, and a key that the parent alone
  has is kept.
\<close>

theorem merged_producer:
  assumes "truthy parentVal" "truthy childVal"
  shows "isFunction (mergeDataOrFn parentVal childVal vm) \<and>
    callFn env (mergeDataOrFn parentVal childVal vm) this args =
      (let ctx = (if truthy vm then vm else this)
       in case produce env childVal ctx of
            Inl e \<Rightarrow> Inl e
          | Inr c \<Rightarrow>
              (case produce env parentVal ctx of
                 Inl e \<Rightarrow> Inl e
               | Inr p \<Rightarrow> if truthy vm \<and> \<not> truthy c then Inr p else mergeData env c p)) \<and>
    (\<forall>c p. \<not> truthy p \<longrightarrow> mergeData env c p = Inr c) \<and>
    (\<forall>c p. setter_assigns env \<and> isPlainObject c \<and> isPlainObject p \<longrightarrow>
       (\<exists>r. mergeData env c p = Inr r \<and> isPlainObject r \<and>
          (\<forall>k. (hasOwn c k \<and> \<not> (isPlainObject (get c k) \<and> isPlainObject (get p k)) \<longrightarrow>
                  get r k = get c k) \<and>
               (k \<in> set (Object_keys p) \<and> \<not> hasOwn c k \<longrightarrow> get r k = get p k) \<and>
               (k \<in> set (Object_keys p) \<and> hasOwn c k \<and>
                isPlainObject (get c k) \<and> isPlainObject (get p k) \<longrightarrow>
                  mergeData env (get c k) (get p k) = Inr (get r k)))))"
proof (intro conjI allI impI)
  show "isFunction (mergeDataOrFn parentVal childVal vm)"
    using assms by (simp add: mergeDataOrFn_def)
  show "callFn env (mergeDataOrFn parentVal childVal vm) this args =
      (let ctx = (if truthy vm then vm else this)
       in case produce env childVal ctx of
            Inl e \<Rightarrow> Inl e
          | Inr c \<Rightarrow>
              (case produce env parentVal ctx of
                 Inl e \<Rightarrow> Inl e
               | Inr p \<Rightarrow> if truthy vm \<and> \<not> truthy c then Inr p else mergeData env c p))"
    using assms by (auto simp: mergeDataOrFn_def produce_def split: sum.splits)
next
  fix c p
  assume "\<not> truthy p"
  then show "mergeData env c p = Inr c"
    by (simp add: mergeData.simps)
next
  fix c p
  assume a: "setter_assigns env \<and> isPlainObject c \<and> isPlainObject p"
  obtain r where r: "mergeData env c p = Inr r" "isPlainObject r"
    "\<And>k. (k \<in> set (Object_keys p) \<and> \<not> hasOwn c k \<longrightarrow>
            get r k = get p k \<and> hasOwn r k) \<and>
         (k \<in> set (Object_keys p) \<and> hasOwn c k \<and>
          isPlainObject (get c k) \<and> isPlainObject (get p k) \<longrightarrow>
            mergeData env (get c k) (get p k) = Inr (get r k)) \<and>
         (k \<in> set (Object_keys p) \<and> hasOwn c k \<and>
          \<not> (isPlainObject (get c k) \<and> isPlainObject (get p k)) \<longrightarrow>
            get r k = get c k) \<and>
         (k \<notin> set (Object_keys p) \<longrightarrow> get r k = get c k \<and> hasOwn r k = hasOwn c k)"
    using mergeData_deep_merge_lemma [of env c p] a by blast
  have "(hasOwn c k \<and> \<not> (isPlainObject (get c k) \<and> isPlainObject (get p k)) \<longrightarrow>
                  get r k = get c k) \<and>
               (k \<in> set (Object_keys p) \<and> \<not> hasOwn c k \<longrightarrow> get r k = get p k) \<and>
               (k \<in> set (Object_keys p) \<and> hasOwn c k \<and>
                isPlainObject (get c k) \<and> isPlainObject (get p k) \<longrightarrow>
                  mergeData env (get c k) (get p k) = Inr (get r k))" for k
    using r(3) [of k] by blast
  then show "\<exists>r. mergeData env c p = Inr r \<and> isPlainObject r \<and>
          (\<forall>k. (hasOwn c k \<and> \<not> (isPlainObject (get c k) \<and> isPlainObject (get p k)) \<longrightarrow>
                  get r k = get c k) \<and>
               (k \<in> set (Object_keys p) \<and> \<not> hasOwn c k \<longrightarrow> get r k = get p k) \<and>
               (k \<in> set (Object_keys p) \<and> hasOwn c k \<and>
                isPlainObject (get c k) \<and> isPlainObject (get p k) \<longrightarrow>
                  mergeData env (get c k) (get p k) = Inr (get r k)))"
    using r(1,2) by blast
qed

theorem merged_producer_witness:
  "truthy (Fn 0 []) \<and> truthy (Obj [(''b'', Num 2)] Null) \<and> truthy (Fn 1 []) \<and>
   isFunction (mergeDataOrFn (Fn 0 []) (Obj [(''b'', Num 2)] Null) Undefined) \<and>
   callFn env_dev (mergeDataOrFn (Fn 0 []) (Obj [(''b'', Num 2)] Null) Undefined) Undefined [] =
     Inr (Obj [(''b'', Num 2), (''a'', Num 1)] Null) \<and>
   callFn env_dev (mergeDataOrFn (Fn 0 []) (Fn 1 []) (Obj [] Null)) Undefined [] =
     Inr (Obj [(''a'', Num 1)] Null) \<and>
   mergeData env_dev (Obj [(''b'', Num 2)] Null) Undefined = Inr (Obj [(''b'', Num 2)] Null)"
  using merged_producer [of "Fn 0 []" "Obj [(''b'', Num 2)] Null" Undefined env_dev Undefined "[]"]
    merged_producer [of "Fn 0 []" "Fn 1 []" "Obj [] Null" env_dev Undefined "[]"]
  by (simp add: produce_def env_dev_def mergeData.simps Object_keys_def nub_def)

text \<open>
  With an instance, a child producer that returns \<^verbatim>\<open>undefined\<close> and a parent producer that
  returns \<^verbatim>\<open>{a: 1}\<close>: the merged producer returns the parent's \<^verbatim>\<open>{a: 1}\<close>, not the child's
  result.
\<close>

theorem merged_producer_counterexample:
  "truthy (Fn 0 []) \<and> truthy (Fn 1 []) \<and>
   produce env_dev (Fn 1 []) (Obj [] Null) = Inr Undefined \<and>
   produce env_dev (Fn 0 []) (Obj [] Null) = Inr (Obj [(''a'', Num 1)] Null) \<and>
   callFn env_dev (mergeDataOrFn (Fn 0 []) (Fn 1 []) (Obj [] Null)) Undefined [] =
     Inr (Obj [(''a'', Num 1)] Null)"
  by (simp add: produce_def mergeDataOrFn_def env_dev_def)

section \<open>The field pass\<close>

lemma flat_cases: "flat v \<Longrightarrow> \<exists>ps. v = Obj ps Null"
  by (cases v rule: flat.cases) auto

lemma flat_put [simp]: "flat (put v k x) = flat v"
  by (cases v rule: flat.cases) (auto split: option.splits)

lemma flat_plain: "flat v \<Longrightarrow> isPlainObject v"
  by (auto dest: flat_cases)

lemma Object_keys_put:
  "isPlainObject v \<Longrightarrow> set (Object_keys (put v k x)) = insert k (set (Object_keys v))"
  by (cases v) (auto simp: Object_keys_def dom_update)

text \<open>A successful call of \<^verbatim>\<open>mergeField\<close> writes one key of \<^verbatim>\<open>options\<close> and nothing else.\<close>

lemma mergeField_Inr:
  "mergeField env vm st key = (Inr st', ws) \<longleftrightarrow>
     (\<exists>v. strat_for env key (get (p_parent st) key) (get (p_child st) key) vm key = (Inr v, ws) \<and>
          st' = st\<lparr>p_options := put (p_options st) key v, p_merged := p_merged st @ [key]\<rparr>)"
  by (auto simp: mergeField_def bindR_Inr)

lemma mergeField_inv:
  assumes "mergeField env vm st key = (Inr st', ws)" "pass_inv env vm parent child st"
  shows "pass_inv env vm parent child st' \<and> p_merged st' = p_merged st @ [key]"
proof -
  obtain v where v:
    "strat_for env key (get parent key) (get child key) vm key = (Inr v, ws)"
    "st' = st\<lparr>p_options := put (p_options st) key v, p_merged := p_merged st @ [key]\<rparr>"
    using assms by (auto simp: mergeField_Inr pass_inv_def)
  have pl: "isPlainObject (p_options st)"
    using assms(2) by (simp add: pass_inv_def flat_plain)
  have "list_all (\<lambda>k. fst (strat_for env k (get parent k) (get child k) vm k) =
                     Inr (get (put (p_options st) key v) k)) (p_merged st)"
    using assms(2) v(1) pl by (auto simp: pass_inv_def list_all_iff get_put_Obj)
  then show ?thesis
    using assms(2) v pl by (simp add: pass_inv_def Object_keys_put get_put_Obj)
qed

lemma foldR_mergeField:
  "foldR (mergeField env vm) st ks = (Inr st', ws) \<Longrightarrow> pass_inv env vm parent child st \<Longrightarrow>
   pass_inv env vm parent child st' \<and> p_merged st' = p_merged st @ ks"
proof (induction ks arbitrary: st ws)
  case Nil
  then show ?case by simp
next
  case (Cons k ks)
  obtain st1 ws1 ws2 where s:
    "mergeField env vm st k = (Inr st1, ws1)"
    "foldR (mergeField env vm) st1 ks = (Inr st', ws2)"
    using Cons.prems(1) by (auto simp: bindR_Inr)
  show ?case
    using mergeField_inv [OF s(1) Cons.prems(2)] Cons.IH [OF s(2)] by simp
qed

lemma foldR_mergeField_new:
  "foldR (\<lambda>st key. if nullish (p_parent st) then throw TypeError
                     else if \<not> hasOwn (p_parent st) key then mergeField env vm st key
                     else ok st) st ks = (Inr st', ws) \<Longrightarrow>
   pass_inv env vm parent child st \<Longrightarrow>
   pass_inv env vm parent child st' \<and>
   p_merged st' = p_merged st @ filter (\<lambda>k. \<not> hasOwn parent k) ks"
proof (induction ks arbitrary: st ws)
  case Nil
  then show ?case by simp
next
  case (Cons k ks)
  let ?step = "\<lambda>st key. if nullish (p_parent st) then throw TypeError
                     else if \<not> hasOwn (p_parent st) key then mergeField env vm st key
                     else ok st"
  obtain st1 ws1 ws2 where s:
    "?step st k = (Inr st1, ws1)" "foldR ?step st1 ks = (Inr st', ws2)"
    using Cons.prems(1) by (auto simp: bindR_Inr)
  have par: "p_parent st = parent"
    using Cons.prems(2) by (simp add: pass_inv_def)
  show ?case
  proof (cases "hasOwn parent k")
    case True
    then have "st1 = st" using s(1) par by (auto split: if_splits)
    then show ?thesis using Cons.IH [OF s(2)] Cons.prems(2) True by simp
  next
    case False
    then have "mergeField env vm st k = (Inr st1, ws1)"
      using s(1) par by (auto split: if_splits)
    then show ?thesis
      using mergeField_inv [OF _ Cons.prems(2)] Cons.IH [OF s(2)] False by simp
  qed
qed

lemma mergeFields_inv:
  assumes "mergeFields env vm \<lparr>p_parent = parent, p_child = child, p_options = Obj [] Null,
             p_merged = []\<rparr> = (Inr st, ws)"
  shows "pass_inv env vm parent child st \<and>
         p_merged st = forin_keys parent @ filter (\<lambda>k. \<not> hasOwn parent k) (forin_keys child)"
proof -
  let ?st0 = "\<lparr>p_parent = parent, p_child = child, p_options = Obj [] Null, p_merged = []\<rparr>"
  have inv0: "pass_inv env vm parent child ?st0"
    by (simp add: pass_inv_def Object_keys_def)
  obtain st1 ws1 ws2 where s:
    "foldR (mergeField env vm) ?st0 (forin_keys parent) = (Inr st1, ws1)"
    "foldR (\<lambda>st key. if nullish (p_parent st) then throw TypeError
                     else if \<not> hasOwn (p_parent st) key then mergeField env vm st key
                     else ok st) st1 (forin_keys (p_child st1)) = (Inr st, ws2)"
    using assms by (auto simp: mergeFields_def bindR_Inr)
  have 1: "pass_inv env vm parent child st1" "p_merged st1 = forin_keys parent"
    using foldR_mergeField [OF s(1) inv0] by simp_all
  then have "p_child st1 = child" by (simp add: pass_inv_def)
  then show ?thesis
    using foldR_mergeField_new [OF s(2) 1(1)] 1(2) by simp
qed

lemma flat_forin:
  "flat parent \<Longrightarrow> hasOwn parent k = (k \<in> set (forin_keys parent))"
  by (auto dest!: flat_cases simp: Object_keys_def)

lemma flat_get_undefined:
  "flat v \<Longrightarrow> k \<notin> set (forin_keys v) \<Longrightarrow> get v k = Undefined"
  by (auto dest!: flat_cases simp: Object_keys_def map_of_eq_None_iff [THEN iffD2] split: option.splits)

lemma flat_get_undefined_keys:
  "flat v \<Longrightarrow> k \<notin> set (Object_keys v) \<Longrightarrow> get v k = Undefined"
  by (auto dest!: flat_cases simp: Object_keys_def map_of_eq_None_iff [THEN iffD2] split: option.splits)

lemma ex_fields:
  "mergeFields env_dev Undefined
     \<lparr>p_parent = ex_P, p_child = ex_M2, p_options = Obj [] Null, p_merged = []\<rparr> =
   (Inr ex_pass, [])"
  by code_simp

text \<open>
  Claim C8. When the field pass of \<^verbatim>\<open>mergeOptions\<close> completes, the parent and the child are
  the objects it began with; the result is an object built from the empty one, whose
  keys are exactly the names merged and which holds under each the result of the name's
  strategy; the names are merged in the order of the parent's fields followed by the
  child's fields that the parent does not own. For a parent whose fields are all its own
  (a configuration object), every field name of the parent or the child is merged, and
  none twice.
\<close>

theorem field_pass_once:
  assumes "mergeFields env vm
             \<lparr>p_parent = parent, p_child = child, p_options = Obj [] Null, p_merged = []\<rparr> =
           (Inr st, ws)"
  shows "p_parent st = parent \<and> p_child st = child \<and>
    flat (p_options st) \<and> set (Object_keys (p_options st)) = set (p_merged st) \<and>
    (\<forall>k \<in> set (p_merged st).
       fst (strat_for env k (get parent k) (get child k) vm k) = Inr (get (p_options st) k)) \<and>
    p_merged st = forin_keys parent @ filter (\<lambda>k. \<not> hasOwn parent k) (forin_keys child) \<and>
    (flat parent \<longrightarrow>
       distinct (p_merged st) \<and>
       set (p_merged st) = set (forin_keys parent) \<union> set (forin_keys child))"
proof -
  have inv: "pass_inv env vm parent child st"
    and m: "p_merged st = forin_keys parent @ filter (\<lambda>k. \<not> hasOwn parent k) (forin_keys child)"
    using mergeFields_inv [OF assms] by simp_all
  have "flat parent \<longrightarrow>
       distinct (p_merged st) \<and>
       set (p_merged st) = set (forin_keys parent) \<union> set (forin_keys child)"
    unfolding m by (auto simp: flat_forin)
  then show ?thesis
    using inv m by (simp add: pass_inv_def list_all_iff)
qed

theorem field_pass_once_witness:
  "mergeFields env_dev Undefined
     \<lparr>p_parent = ex_P, p_child = ex_M2, p_options = Obj [] Null, p_merged = []\<rparr> =
   (Inr ex_pass, []) \<and>
   flat ex_P \<and> p_parent ex_pass = ex_P \<and> p_child ex_pass = ex_M2 \<and>
   distinct (p_merged ex_pass) \<and>
   p_merged ex_pass = [''a'', ''b'', ''c'', ''d'', ''e''] \<and>
   set (p_merged ex_pass) = set (forin_keys ex_P) \<union> set (forin_keys ex_M2) \<and>
   fst (strat_for env_dev ''a'' (get ex_P ''a'') (get ex_M2 ''a'') Undefined ''a'') =
     Inr (get (p_options ex_pass) ''a'')"
proof -
  have fl: "flat ex_P"
    by (simp add: ex_P_def)
  have ev: "p_merged ex_pass = [''a'', ''b'', ''c'', ''d'', ''e'']"
    by (simp add: ex_pass_def)
  note T = field_pass_once [OF ex_fields]
  have t: "p_parent ex_pass = ex_P" "p_child ex_pass = ex_M2"
    "distinct (p_merged ex_pass)"
    "set (p_merged ex_pass) = set (forin_keys ex_P) \<union> set (forin_keys ex_M2)"
    using T fl by blast+
  have "''a'' \<in> set (p_merged ex_pass)"
    by (simp add: ev)
  then have a: "fst (strat_for env_dev ''a'' (get ex_P ''a'') (get ex_M2 ''a'') Undefined ''a'') =
     Inr (get (p_options ex_pass) ''a'')"
    using T by blast
  show ?thesis
    by (intro conjI) (rule ex_fields fl t ev a)+
qed

section \<open>The order of inheritance\<close>

lemma fields_default:
  assumes "mergeFields env vm
             \<lparr>p_parent = parent, p_child = child, p_options = Obj [] Null, p_merged = []\<rparr> =
           (Inr st, ws)"
    and "flat parent" "flat child" "strats env f = None"
  shows "flat (p_options st) \<and> get (p_options st) f = defaultStrat (get parent f) (get child f)"
proof -
  have inv: "pass_inv env vm parent child st"
    and m: "p_merged st = forin_keys parent @ filter (\<lambda>k. \<not> hasOwn parent k) (forin_keys child)"
    using mergeFields_inv [OF assms(1)] by simp_all
  have fl: "flat (p_options st)" using inv by (simp add: pass_inv_def)
  have sf: "strat_for env f (get parent f) (get child f) vm f =
              ok (defaultStrat (get parent f) (get child f))"
    using assms(4) by (simp add: strat_for_def)
  show ?thesis
  proof (cases "f \<in> set (p_merged st)")
    case True
    then have "fst (strat_for env f (get parent f) (get child f) vm f) = Inr (get (p_options st) f)"
      using inv by (simp add: pass_inv_def list_all_iff)
    then show ?thesis using fl sf by (simp add: ok_def)
  next
    case False
    then have "f \<notin> set (forin_keys parent)" "f \<notin> set (forin_keys child)"
      using m assms(2) by (auto simp: flat_forin)
    then have "get parent f = Undefined" "get child f = Undefined"
      using assms(2,3) by (simp_all add: flat_get_undefined)
    moreover have "get (p_options st) f = Undefined"
      using False inv fl by (intro flat_get_undefined_keys) (simp_all add: pass_inv_def)
    ultimately show ?thesis using fl by (simp add: defaultStrat_def)
  qed
qed

lemma flat_put_found [simp]: "flat (put_found v k x) = flat v"
  by (cases v rule: flat.cases) (auto split: option.splits)

lemma flat_not_nullish: "flat v \<Longrightarrow> \<not> nullish v"
  by (auto dest: flat_cases)

lemma flat_not_function: "flat v \<Longrightarrow> \<not> isFunction v"
  by (auto dest: flat_cases)

lemma normalizeProps_flat:
  "normalizeProps env options vm = (Inr options', ws) \<Longrightarrow> flat options' = flat options"
  by (auto simp: normalizeProps_def Let_def bindR_Inr split: if_splits)

lemma normalizeInject_flat:
  "normalizeInject env options vm = (Inr options', ws) \<Longrightarrow> flat options' = flat options"
  by (auto simp: normalizeInject_def Let_def bindR_Inr split: if_splits)

lemma normalizeDirectives_flat:
  "normalizeDirectives options = (Inr options', ws) \<Longrightarrow> flat options' = flat options"
  by (auto simp: normalizeDirectives_def Let_def split: if_splits)

lemma bindR_InrE:
  assumes "bindR m f = (Inr y, ws)"
  obtains x ws1 ws2 where "m = (Inr x, ws1)" "f x = (Inr y, ws2)" "ws = ws1 @ ws2"
  using assms by (auto simp: bindR_Inr)

text \<open>What a successful call of the merge driver has done, for a child that is not a function.\<close>

lemma mergeOptions_Inr:
  assumes "mergeOptions env parent child vm = (Inr (opts, child'), ws)" "\<not> isFunction child"
  shows "\<exists>c1 c2 c3 w1 w2 w3 parent1 c4 parent2 st w6.
      normalizeProps env child vm = (Inr c1, w1) \<and>
      normalizeInject env c1 vm = (Inr c2, w2) \<and>
      normalizeDirectives c2 = (Inr c3, w3) \<and>
      (if truthy (get c3 ''extends'')
       then \<exists>e' w4. mergeOptions env parent (get c3 ''extends'') vm = (Inr (parent1, e'), w4) \<and>
                    c4 = put_found c3 ''extends'' e'
       else parent1 = parent \<and> c4 = c3) \<and>
      (if truthy (get c4 ''mixins'')
       then \<exists>ms' w5. mergeMixins env parent1 (mixin_elems env (get c4 ''mixins'')) vm =
                       (Inr (parent2, ms'), w5) \<and>
                     child' = put_found c4 ''mixins'' (write_elems (get c4 ''mixins'') ms')
       else parent2 = parent1 \<and> child' = c4) \<and>
      mergeFields env vm
        \<lparr>p_parent = parent2, p_child = child', p_options = Obj [] Null, p_merged = []\<rparr> =
        (Inr st, w6) \<and>
      opts = p_options st"
proof -
  obtain c1 c2 c3 w1 w2 w3 a b wa wb where
    n: "normalizeProps env child vm = (Inr c1, w1)"
       "normalizeInject env c1 vm = (Inr c2, w2)"
       "normalizeDirectives c2 = (Inr c3, w3)"
    and ext: "(if truthy (get c3 ''extends'')
          then bindR (mergeOptions env parent (get c3 ''extends'') vm)
                (\<lambda>(parent, extendsFrom). ok (parent, put_found c3 ''extends'' extendsFrom))
          else ok (parent, c3)) = (Inr (a, b), wa)"
    and rest: "bindR
          (if truthy (get b ''mixins'')
           then bindR (mergeMixins env a (mixin_elems env (get b ''mixins'')) vm)
                 (\<lambda>(parent, ms).
                     ok (parent, put_found b ''mixins'' (write_elems (get b ''mixins'') ms)))
           else ok (a, b))
          (\<lambda>(parent, child5).
              bindR (mergeFields env vm
                       \<lparr>p_parent = parent, p_child = child5, p_options = Obj [] Null,
                          p_merged = []\<rparr>)
               (\<lambda>st. ok (p_options st, child5))) = (Inr (opts, child'), wb)"
    using assms(1) [unfolded mergeOptions.simps [of env parent child vm]] assms(2)
    apply (simp only: Let_def if_False)
    apply (erule bindR_InrE)+
    apply (simp only: split_paired_all prod.case)
    done
  have e: "if truthy (get c3 ''extends'')
       then \<exists>e' w4. mergeOptions env parent (get c3 ''extends'') vm = (Inr (a, e'), w4) \<and>
                    b = put_found c3 ''extends'' e'
       else a = parent \<and> b = c3"
    using ext by (auto simp: bindR_Inr split: if_splits)
  obtain parent2 c5 wc wd where
    mix: "(if truthy (get b ''mixins'')
           then bindR (mergeMixins env a (mixin_elems env (get b ''mixins'')) vm)
                 (\<lambda>(parent, ms).
                     ok (parent, put_found b ''mixins'' (write_elems (get b ''mixins'') ms)))
           else ok (a, b)) = (Inr (parent2, c5), wc)"
    and fin: "bindR (mergeFields env vm
                       \<lparr>p_parent = parent2, p_child = c5, p_options = Obj [] Null,
                          p_merged = []\<rparr>)
               (\<lambda>st. ok (p_options st, c5)) = (Inr (opts, child'), wd)"
    using rest
    apply (erule_tac bindR_InrE)
    apply (simp only: split_paired_all prod.case)
    done
  obtain st w6 where st:
    "mergeFields env vm
       \<lparr>p_parent = parent2, p_child = c5, p_options = Obj [] Null, p_merged = []\<rparr> =
     (Inr st, w6)" "opts = p_options st" "child' = c5"
    using fin by (auto simp: bindR_Inr)
  have m: "if truthy (get b ''mixins'')
       then \<exists>ms' w5. mergeMixins env a (mixin_elems env (get b ''mixins'')) vm =
                       (Inr (parent2, ms'), w5) \<and>
                     child' = put_found b ''mixins'' (write_elems (get b ''mixins'') ms')
       else parent2 = a \<and> child' = b"
    using mix st(3) by (auto simp: bindR_Inr split: if_splits)
  show ?thesis
    using n e m st(1,2) unfolding st(3) [symmetric] by blast
qed

lemma strats_None_names:
  "strats env f = None \<Longrightarrow> f \<noteq> ''props'' \<and> f \<noteq> ''inject''"
  by (auto simp: strats_eq split: if_splits)

lemma mergeOptions_flat_default:
  assumes m: "mergeOptions env parent child vm = (Inr (opts, child'), ws)"
    and fl: "flat parent" "flat child"
    and no: "\<not> truthy (get child ''extends'')" "\<not> truthy (get child ''mixins'')"
    and f: "strats env f = None" "f \<noteq> ''directives''"
  shows "flat opts \<and> get opts f = defaultStrat (get parent f) (get child f) \<and> flat child'"
proof -
  obtain c1 c2 c3 w1 w2 w3 parent1 c4 parent2 st w6 where
    n: "normalizeProps env child vm = (Inr c1, w1)"
       "normalizeInject env c1 vm = (Inr c2, w2)"
       "normalizeDirectives c2 = (Inr c3, w3)"
    and e: "if truthy (get c3 ''extends'')
       then \<exists>e' w4. mergeOptions env parent (get c3 ''extends'') vm = (Inr (parent1, e'), w4) \<and>
                    c4 = put_found c3 ''extends'' e'
       else parent1 = parent \<and> c4 = c3"
    and x: "if truthy (get c4 ''mixins'')
       then \<exists>ms' w5. mergeMixins env parent1 (mixin_elems env (get c4 ''mixins'')) vm =
                       (Inr (parent2, ms'), w5) \<and>
                     child' = put_found c4 ''mixins'' (write_elems (get c4 ''mixins'') ms')
       else parent2 = parent1 \<and> child' = c4"
    and st: "mergeFields env vm
        \<lparr>p_parent = parent2, p_child = child', p_options = Obj [] Null, p_merged = []\<rparr> =
        (Inr st, w6)" "opts = p_options st"
    using mergeOptions_Inr [OF m flat_not_function [OF fl(2)]] by blast
  have g: "get c3 k = get child k" if "k \<noteq> ''props''" "k \<noteq> ''inject''" "k \<noteq> ''directives''" for k
    using normalized_get [OF n that] .
  have "\<not> truthy (get c3 ''extends'')" using g [of "''extends''"] no by simp
  then have 1: "parent1 = parent" "c4 = c3" using e by simp_all
  have "\<not> truthy (get c4 ''mixins'')" using g [of "''mixins''"] no 1 by simp
  then have 2: "parent2 = parent" "child' = c3" using x 1 by simp_all
  have fc3: "flat c3"
    using fl(2) normalizeProps_flat [OF n(1)] normalizeInject_flat [OF n(2)]
      normalizeDirectives_flat [OF n(3)] by simp
  have "get c3 f = get child f"
    using g [of f] f strats_None_names [OF f(1)] by simp
  then show ?thesis
    using fields_default [OF st(1) [unfolded 2] fl(1) fc3 f(1)] st(2) fc3 2 by simp
qed

lemma mixin_elems_pair: "mixin_elems env (Arr [M1, M2]) = [M1, M2]"
  by (simp add: mixin_elems_def upt_rec [of 0] upt_rec [of "Suc 0"] string_of_nat.simps
        digit_char_def parse_index_def is_digit_def digit_val_def numeral_2_eq_2)

lemma mergeMixins_pair:
  assumes "mergeMixins env p1 [M1, M2] vm = (Inr (p3, ms), ws)"
  shows "\<exists>p2 m1 m2 w1 w2. mergeOptions env p1 M1 vm = (Inr (p2, m1), w1) \<and>
            mergeOptions env p2 M2 vm = (Inr (p3, m2), w2) \<and> ms = [m1, m2]"
  using assms by (auto simp: bindR_Inr)

lemma flat_hasOwn: "flat v \<Longrightarrow> get v k \<noteq> Undefined \<Longrightarrow> hasOwn v k"
  by (auto dest!: flat_cases map_of_SomeD simp: image_iff split: option.splits) force

lemma get_put_found_same: "flat v \<Longrightarrow> hasOwn v k \<Longrightarrow> get (put_found v k x) k = x"
  by (auto dest!: flat_cases simp: update_conv')

lemma isArray_put_found [simp]: "isArray (put_found v k x) = isArray v"
  by (cases v) (auto split: option.splits)

lemma isArray_write_elems: "isArray (write_elems (Arr xs) ms)"
proof -
  have "isArray (foldl (\<lambda>m (i, x). put_found m (string_of_nat i) x) v ps) = isArray v" for v ps
    by (induction ps arbitrary: v) (auto simp: split_def)
  then show ?thesis by (simp add: write_elems_def)
qed

lemma isArray_defined: "isArray v \<Longrightarrow> v \<noteq> Undefined"
  by auto

lemma flat_defined: "flat v \<Longrightarrow> v \<noteq> Undefined"
  by auto

lemma ex_merge: "mergeOptions env_dev ex_P ex_C Undefined = (Inr (ex_opts, ex_C), [])"
  by code_simp

lemma ex_strats_None:
  "strats env_dev ''a'' = None" "strats env_dev ''b'' = None" "strats env_dev ''c'' = None"
  "strats env_dev ''d'' = None" "strats env_dev ''e'' = None"
  "strats env_dev ''extends'' = None" "strats env_dev ''mixins'' = None"
  by (simp_all add: strats_eq)

text \<open>
  Claim C2. Let \<open>C\<close> extend \<open>E\<close> and have the mixins \<open>M1\<close> and \<open>M2\<close>, all configuration
  objects, where \<open>E\<close>, \<open>M1\<close> and \<open>M2\<close> extend nothing and have no mixins themselves. A
  successful \<^verbatim>\<open>mergeOptions(P, C)\<close> has merged \<open>E\<close> into \<open>P\<close>, then \<open>M1\<close> into the result, then
  \<open>M2\<close>, and then \<open>C\<close>. For a field \<open>f\<close> without a registered strategy (other than
  \<^verbatim>\<open>extends\<close>, \<^verbatim>\<open>mixins\<close> and \<^verbatim>\<open>directives\<close>), the merged value is the value of \<open>C\<close> if it is
  not \<^verbatim>\<open>undefined\<close>, else that of \<open>M2\<close>, else of \<open>M1\<close>, else of \<open>E\<close>, else of \<open>P\<close>. The fields
  \<^verbatim>\<open>extends\<close> and \<^verbatim>\<open>mixins\<close> themselves hold the values that \<open>C\<close> has after the call (the
  objects normalized in place).
\<close>

theorem mergeOptions_chain_order:
  assumes m: "mergeOptions env P C vm = (Inr (opts, C'), ws)"
    and fl: "flat P" "flat C" "flat E" "flat M1" "flat M2"
    and c: "get C ''extends'' = E" "get C ''mixins'' = Arr [M1, M2]"
    and noE: "\<not> truthy (get E ''extends'')" "\<not> truthy (get E ''mixins'')"
    and noM1: "\<not> truthy (get M1 ''extends'')" "\<not> truthy (get M1 ''mixins'')"
    and noM2: "\<not> truthy (get M2 ''extends'')" "\<not> truthy (get M2 ''mixins'')"
    and f: "strats env f = None" "f \<notin> {''directives'', ''extends'', ''mixins''}"
  shows "(\<exists>p1 p2 p3 e m1 m2 w1 w2 w3.
            mergeOptions env P E vm = (Inr (p1, e), w1) \<and>
            mergeOptions env p1 M1 vm = (Inr (p2, m1), w2) \<and>
            mergeOptions env p2 M2 vm = (Inr (p3, m2), w3) \<and>
            get opts f = defaultStrat (get p3 f) (get C f)) \<and>
         get opts f =
           (if get C f \<noteq> Undefined then get C f
            else if get M2 f \<noteq> Undefined then get M2 f
            else if get M1 f \<noteq> Undefined then get M1 f
            else if get E f \<noteq> Undefined then get E f
            else get P f) \<and>
         (strats env ''extends'' = None \<longrightarrow> get opts ''extends'' = get C' ''extends'') \<and>
         (strats env ''mixins'' = None \<longrightarrow> get opts ''mixins'' = get C' ''mixins'')"
proof -
  have fd: "f \<noteq> ''directives''" "f \<noteq> ''extends''" "f \<noteq> ''mixins''"
    using f(2) by simp_all
  obtain c1 c2 c3 w1 w2 w3 parent1 c4 parent2 st w6 where
    n: "normalizeProps env C vm = (Inr c1, w1)"
       "normalizeInject env c1 vm = (Inr c2, w2)"
       "normalizeDirectives c2 = (Inr c3, w3)"
    and e: "if truthy (get c3 ''extends'')
       then \<exists>e' w4. mergeOptions env P (get c3 ''extends'') vm = (Inr (parent1, e'), w4) \<and>
                    c4 = put_found c3 ''extends'' e'
       else parent1 = P \<and> c4 = c3"
    and x: "if truthy (get c4 ''mixins'')
       then \<exists>ms' w5. mergeMixins env parent1 (mixin_elems env (get c4 ''mixins'')) vm =
                       (Inr (parent2, ms'), w5) \<and>
                     C' = put_found c4 ''mixins'' (write_elems (get c4 ''mixins'') ms')
       else parent2 = parent1 \<and> C' = c4"
    and st: "mergeFields env vm
        \<lparr>p_parent = parent2, p_child = C', p_options = Obj [] Null, p_merged = []\<rparr> =
        (Inr st, w6)" "opts = p_options st"
    using mergeOptions_Inr [OF m flat_not_function [OF fl(2)]] by blast
  have g: "get c3 k = get C k" if "k \<noteq> ''props''" "k \<noteq> ''inject''" "k \<noteq> ''directives''" for k
    using normalized_get [OF n that] .
  have fc3: "flat c3"
    using fl(2) normalizeProps_flat [OF n(1)] normalizeInject_flat [OF n(2)]
      normalizeDirectives_flat [OF n(3)] by simp
  have tE: "truthy E" using fl(3) by (rule plain_truthy [OF flat_plain])
  have c3e: "get c3 ''extends'' = E" using g [of "''extends''"] c(1) by simp
  then obtain e' w4 where
    e1: "mergeOptions env P E vm = (Inr (parent1, e'), w4)" "c4 = put_found c3 ''extends'' e'"
    using e tE by auto
  have p1: "flat parent1" "get parent1 f = defaultStrat (get P f) (get E f)" "flat e'"
    using mergeOptions_flat_default [OF e1(1) fl(1,3) noE f(1) fd(1)] by simp_all
  have c4m: "get c4 ''mixins'' = Arr [M1, M2]"
    using e1(2) g [of "''mixins''"] c(2) by (simp add: get_put_found_other)
  then obtain ms' w5 where
    x1: "mergeMixins env parent1 [M1, M2] vm = (Inr (parent2, ms'), w5)"
        "C' = put_found c4 ''mixins'' (write_elems (Arr [M1, M2]) ms')"
    using x by (auto simp: mixin_elems_pair)
  obtain p2 m1 m2 v1 v2 where
    mm: "mergeOptions env parent1 M1 vm = (Inr (p2, m1), v1)"
        "mergeOptions env p2 M2 vm = (Inr (parent2, m2), v2)"
    using mergeMixins_pair [OF x1(1)] by blast
  have p2: "flat p2" "get p2 f = defaultStrat (get parent1 f) (get M1 f)"
    using mergeOptions_flat_default [OF mm(1) p1(1) fl(4) noM1 f(1) fd(1)] by simp_all
  have p3: "flat parent2" "get parent2 f = defaultStrat (get p2 f) (get M2 f)"
    using mergeOptions_flat_default [OF mm(2) p2(1) fl(5) noM2 f(1) fd(1)] by simp_all
  have fC': "flat C'" using x1(2) e1(2) fc3 by simp
  have gC': "get C' f = get C f"
    using x1(2) e1(2) g [of f] fd strats_None_names [OF f(1)]
    by (simp add: get_put_found_other)
  have o: "get opts f = defaultStrat (get parent2 f) (get C f)"
    using fields_default [OF st(1) p3(1) fC' f(1)] st(2) gC' by simp
  have chain: "\<exists>p1 p2 p3 e m1 m2 w1 w2 w3.
            mergeOptions env P E vm = (Inr (p1, e), w1) \<and>
            mergeOptions env p1 M1 vm = (Inr (p2, m1), w2) \<and>
            mergeOptions env p2 M2 vm = (Inr (p3, m2), w3) \<and>
            get opts f = defaultStrat (get p3 f) (get C f)"
    using e1(1) mm o by blast
  have "get opts f =
           (if get C f \<noteq> Undefined then get C f
            else if get M2 f \<noteq> Undefined then get M2 f
            else if get M1 f \<noteq> Undefined then get M1 f
            else if get E f \<noteq> Undefined then get E f
            else get P f)"
    using o p3(2) p2(2) p1(2) by (simp add: defaultStrat_def)
  moreover have "get opts ''extends'' = get C' ''extends''" if "strats env ''extends'' = None"
  proof -
    have "hasOwn c3 ''extends''"
      using fc3 c3e fl(3) by (intro flat_hasOwn) (auto dest: flat_defined)
    then have "get c4 ''extends'' = e'"
      using e1(2) fc3 by (simp add: get_put_found_same)
    then have "get C' ''extends'' = e'"
      using x1(2) by (simp add: get_put_found_other)
    then show ?thesis
      using fields_default [OF st(1) p3(1) fC' that] st(2) p1(3)
      by (auto simp: defaultStrat_def dest: flat_defined)
  qed
  moreover have "get opts ''mixins'' = get C' ''mixins''" if "strats env ''mixins'' = None"
  proof -
    have "flat c4" using e1(2) fc3 by simp
    moreover have "hasOwn c4 ''mixins''"
      using \<open>flat c4\<close> c4m by (intro flat_hasOwn) simp_all
    ultimately have "get C' ''mixins'' = write_elems (Arr [M1, M2]) ms'"
      using x1(2) by (simp add: get_put_found_same)
    then have "get C' ''mixins'' \<noteq> Undefined"
      using isArray_write_elems [of "[M1, M2]" ms'] by (auto dest: isArray_defined)
    then show ?thesis
      using fields_default [OF st(1) p3(1) fC' that] st(2)
      by (simp add: defaultStrat_def)
  qed
  ultimately show ?thesis using chain by simp
qed

theorem mergeOptions_chain_order_witness:
  "mergeOptions env_dev ex_P ex_C Undefined = (Inr (ex_opts, ex_C), []) \<and>
   flat ex_P \<and> flat ex_C \<and> flat ex_E \<and> flat ex_M1 \<and> flat ex_M2 \<and>
   get ex_C ''extends'' = ex_E \<and> get ex_C ''mixins'' = Arr [ex_M1, ex_M2] \<and>
   strats env_dev ''a'' = None \<and> strats env_dev ''b'' = None \<and> strats env_dev ''c'' = None \<and>
   strats env_dev ''d'' = None \<and> strats env_dev ''e'' = None \<and>
   get ex_opts ''a'' = get ex_C ''a'' \<and> get ex_opts ''b'' = get ex_M2 ''b'' \<and>
   get ex_opts ''c'' = get ex_M1 ''c'' \<and> get ex_opts ''d'' = get ex_E ''d'' \<and>
   get ex_opts ''e'' = get ex_P ''e'' \<and>
   get ex_opts ''extends'' = get ex_C ''extends'' \<and>
   get ex_opts ''mixins'' = get ex_C ''mixins''"
proof -
  have fl: "flat ex_P" "flat ex_C" "flat ex_E" "flat ex_M1" "flat ex_M2"
    by (simp_all add: ex_P_def ex_C_def ex_E_def ex_M1_def ex_M2_def)
  have g: "get ex_C ''extends'' = ex_E" "get ex_C ''mixins'' = Arr [ex_M1, ex_M2]"
    by (simp_all add: ex_C_def)
  have no: "\<not> truthy (get ex_E ''extends'')" "\<not> truthy (get ex_E ''mixins'')"
    "\<not> truthy (get ex_M1 ''extends'')" "\<not> truthy (get ex_M1 ''mixins'')"
    "\<not> truthy (get ex_M2 ''extends'')" "\<not> truthy (get ex_M2 ''mixins'')"
    by (simp_all add: ex_E_def ex_M1_def ex_M2_def)
  note T = mergeOptions_chain_order [OF ex_merge fl g no]
  have ev: "get ex_C ''a'' = Num 5" "get ex_C ''b'' = Undefined" "get ex_C ''c'' = Undefined"
    "get ex_C ''d'' = Undefined" "get ex_C ''e'' = Undefined"
    "get ex_M2 ''b'' = Num 4" "get ex_M2 ''c'' = Undefined" "get ex_M2 ''d'' = Undefined"
    "get ex_M2 ''e'' = Undefined"
    "get ex_M1 ''c'' = Num 3" "get ex_M1 ''d'' = Undefined" "get ex_M1 ''e'' = Undefined"
    "get ex_E ''d'' = Num 2" "get ex_E ''e'' = Undefined"
    by (simp_all add: ex_C_def ex_M2_def ex_M1_def ex_E_def)
  have v: "get ex_opts ''a'' = get ex_C ''a''" "get ex_opts ''b'' = get ex_M2 ''b''"
    "get ex_opts ''c'' = get ex_M1 ''c''" "get ex_opts ''d'' = get ex_E ''d''"
    "get ex_opts ''e'' = get ex_P ''e''"
    using T [OF ex_strats_None(1)] T [OF ex_strats_None(2)] T [OF ex_strats_None(3)]
      T [OF ex_strats_None(4)] T [OF ex_strats_None(5)]
    by (simp_all add: ev)
  have x: "get ex_opts ''extends'' = get ex_C ''extends''"
    "get ex_opts ''mixins'' = get ex_C ''mixins''"
    using T [OF ex_strats_None(1)] ex_strats_None(6,7) by simp_all
  show ?thesis
    by (intro conjI) (rule ex_merge fl g ex_strats_None v x)+
qed

section \<open>Failures\<close>

lemma not_nullish_put [simp]: "nullish (put v k x) = nullish v"
  by (cases v) (auto split: option.splits)

lemma not_nullish_put_found [simp]: "nullish (put_found v k x) = nullish v"
  by (cases v) (auto split: option.splits)













lemma ex_throwing_producer:
  "callFn env_dev (mergeDataOrFn (Fn 0 []) (Fn 2 []) Undefined) Undefined [] =
     Inl (Thrown (Str ''boom''))"
  by code_simp




end
